theory Spec2Isabelle
  imports Main "HOL-Library.Word"
begin

section \<open>The NanoLeaf display usermod\<close>

text \<open>
  A shallow embedding of \<^verbatim>\<open>usermods/NanoLeaf_Display/usermod_nanoleaf_display.h\<close>:
  a 4 digit display of 28 segments, 7 per digit, 3 addressable LEDs per segment.
  C \<^verbatim>\<open>int\<close> values are modelled as \<open>int\<close>: the only arithmetic on them is index
  arithmetic on small constants and division by 10, none of which overflows.
\<close>

subsection \<open>Constants and the glyph table\<close>

definition NUM_OF_SEGMENTS :: int where
  "NUM_OF_SEGMENTS = 28"

definition ADDR_LEDS_PER_SEG :: int where
  "ADDR_LEDS_PER_SEG = 3"

definition SEGS_PER_DIGIT :: int where
  "SEGS_PER_DIGIT = 7"

definition NUM_DIGITS :: int where
  "NUM_DIGITS = 10"

definition NUM_FIRST_LEDS :: int where
  "NUM_FIRST_LEDS = 3"

text \<open>
  A row of \<^verbatim>\<open>const int DIGITS[NUM_DIGITS][NUM_OF_SEGMENTS]\<close>: the initialiser gives its
  first columns, aggregate initialisation fills the other columns of the 28 with 0.
\<close>

definition row :: "int list \<Rightarrow> int list" where
  "row xs = xs @ replicate (nat NUM_OF_SEGMENTS - length xs) 0"

definition DIGITS :: "int list list" where
  "DIGITS =
    [ row [3, -1, -1, -1, -1, -1, -1],
      row [1, 2, 3, 5, 6, -1, -1],
      row [0, 6, -1, -1, -1, -1, -1],
      row [2, 6, -1, -1, -1, -1, -1],
      row [1, 2, 5, -1, -1, -1, -1],
      row [2, 4, -1, -1, -1, -1, -1],
      row [4, -1, -1, -1, -1, -1, -1],
      row [1, 2, 3, 6, -1, -1, -1],
      row [-1, -1, -1, -1, -1, -1, -1],
      row [2, -1, -1, -1, -1, -1, -1] ]"

definition midSegmentIndex :: int where
  "midSegmentIndex = NUM_OF_SEGMENTS div 2"

text \<open>
  What C leaves undefined is an error value of the model: an array index out of its
  bounds, and the use of a segment pointer that was never set.
\<close>

datatype error = OutOfBounds | BadPointer

text \<open>The read \<^verbatim>\<open>DIGITS[value][i]\<close>.\<close>

definition DIGITS_at :: "int \<Rightarrow> int \<Rightarrow> error + int" where
  "DIGITS_at v i =
    (if 0 \<le> v \<and> v < NUM_DIGITS \<and> 0 \<le> i \<and> i < NUM_OF_SEGMENTS
     then Inr (DIGITS ! nat v ! nat i) else Inl OutOfBounds)"

text \<open>
  The glyph lookup of \<^verbatim>\<open>setDigit\<close>: the offsets \<^verbatim>\<open>segIndex\<close> its loop
  \<^verbatim>\<open>for(int i = 0; i < NUM_DIGITS; i++)\<close> reads from the row of \<open>v\<close>, from column \<open>i\<close>
  on, until the \<open>-1\<close> that breaks the loop.
\<close>

function setDigit_offsets :: "int \<Rightarrow> int \<Rightarrow> error + int list" where
  "setDigit_offsets v i =
    (if i < NUM_DIGITS then
       (case DIGITS_at v i of
          Inl e \<Rightarrow> Inl e
        | Inr segIndex \<Rightarrow>
            if segIndex = -1 then Inr []
            else (case setDigit_offsets v (i + 1) of
                    Inl e \<Rightarrow> Inl e
                  | Inr offs \<Rightarrow> Inr (segIndex # offs)))
     else Inr [])"
  by pat_completeness auto
termination
  by (relation "measure (\<lambda>(v, i). nat (NUM_DIGITS - i))") auto

declare setDigit_offsets.simps [simp del]

text \<open>
  The glyph table as the specification documents it (section 4.1): the offsets blanked
  for each value.
\<close>

definition spec_segmentsToBlank :: "int \<Rightarrow> int set" where
  "spec_segmentsToBlank v =
    (if v = 0 then {3} else if v = 1 then {1, 2, 3, 5, 6} else if v = 2 then {0, 6}
     else if v = 3 then {2, 6} else if v = 4 then {1, 2, 5} else if v = 5 then {2, 4}
     else if v = 6 then {4} else if v = 7 then {1, 2, 3, 6} else if v = 8 then {}
     else if v = 9 then {2} else {})"


subsection \<open>The host's LED buffer\<close>

type_synonym colour = "32 word"

text \<open>
  Modelled from the spec: the host's \<^verbatim>\<open>WS2812FX::Segment\<close> and the global \<^verbatim>\<open>strip\<close>
  (declared in wled.h, which is not among the sources). Section 3 of the specification
  gives a segment its LED range, its colour, effect, speed, intensity and palette and its
  option flags; section 6 gives the host calls: a range is defined by its id and its first
  and last LED, an effect is set by range id, a pixel is written by LED index, and a
  segment handle sets one colour channel.
\<close>

record Segment =
  start :: int
  stop :: int
  colors0 :: colour
  colors1 :: colour
  colors2 :: colour
  mode :: "8 word"
  speed :: "8 word"
  intensity :: "8 word"
  palette :: "8 word"
  options :: "8 word"

record Strip =
  segs :: "nat \<Rightarrow> Segment"
  pixels :: "int \<Rightarrow> colour"

text \<open>
  Modelled from the spec: \<^verbatim>\<open>seg.setColor(slot, c, segn)\<close> writes colour channel \<open>slot\<close> of
  the segment (\<^verbatim>\<open>colors[slot]\<close>); the third argument is the owner's id, a hint to the host.
\<close>

definition setColor :: "nat \<Rightarrow> colour \<Rightarrow> int \<Rightarrow> Segment \<Rightarrow> Segment" where
  "setColor slot c segn s =
    (if slot = 0 then s\<lparr>colors0 := c\<rparr>
     else if slot = 1 then s\<lparr>colors1 := c\<rparr>
     else if slot = 2 then s\<lparr>colors2 := c\<rparr>
     else s)"

text \<open>Modelled from the spec: \<^verbatim>\<open>seg.setOption(n, val)\<close> sets or clears option bit \<open>n\<close>.\<close>

definition setOption :: "nat \<Rightarrow> bool \<Rightarrow> Segment \<Rightarrow> Segment" where
  "setOption n val s =
    s\<lparr>options := (if val then set_bit n (options s) else unset_bit n (options s))\<rparr>"

text \<open>A write through a segment pointer: the pointer is the id of the host's segment.\<close>

definition upd_seg :: "nat \<Rightarrow> (Segment \<Rightarrow> Segment) \<Rightarrow> Strip \<Rightarrow> Strip" where
  "upd_seg p f s = s\<lparr>segs := (segs s)(p := f (segs s p))\<rparr>"

text \<open>Modelled from the spec: \<^verbatim>\<open>strip.setSegment(n, i1, i2)\<close> defines range \<open>n\<close> as the LEDs
  from \<open>i1\<close> up to, not including, \<open>i2\<close>.\<close>

definition setSegment :: "int \<Rightarrow> int \<Rightarrow> int \<Rightarrow> Strip \<Rightarrow> Strip" where
  "setSegment n i1 i2 s = upd_seg (nat n) (\<lambda>x. x\<lparr>start := i1, stop := i2\<rparr>) s"

text \<open>Modelled from the spec: \<^verbatim>\<open>strip.setMode(segid, m)\<close> sets the effect of range \<open>segid\<close>.\<close>

definition setMode :: "int \<Rightarrow> 8 word \<Rightarrow> Strip \<Rightarrow> Strip" where
  "setMode segid m s = upd_seg (nat segid) (\<lambda>x. x\<lparr>mode := m\<rparr>) s"

text \<open>Modelled from the spec: \<^verbatim>\<open>strip.setPixelColor(i, c)\<close> writes one LED.\<close>

definition setPixelColor :: "int \<Rightarrow> colour \<Rightarrow> Strip \<Rightarrow> Strip" where
  "setPixelColor i c s = s\<lparr>pixels := (pixels s)(i := c)\<rparr>"

text \<open>
  Modelled from the spec: \<^verbatim>\<open>strip.resetSegments()\<close>, the host call that precedes the flat
  wiring. The specification names no contract for it; here it returns every range of the
  table to the empty range, so that the ranges that hold LEDs afterwards are those the
  caller defines.
\<close>

definition resetSegments :: "Strip \<Rightarrow> Strip" where
  "resetSegments s = s\<lparr>segs := (\<lambda>n. (segs s n)\<lparr>start := 0, stop := 0\<rparr>)\<rparr>"

subsection \<open>The usermod's state and its environment\<close>

text \<open>
  The fields of \<^verbatim>\<open>class NanoLeafDisplay\<close>, with the global \<^verbatim>\<open>strip\<close> they act on. The
  array \<^verbatim>\<open>segments\<close> has the indices 0..27, and a segment pointer is the id of the host's
  segment it points to, \<open>None\<close> while it was never assigned. \<^verbatim>\<open>lastDHT11TimeRead\<close> is a
  32 bit \<^verbatim>\<open>long\<close> that holds values of \<^verbatim>\<open>millis()\<close>.
\<close>

record NanoLeafDisplay =
  strip :: Strip
  segments :: "nat \<Rightarrow> nat option"
  firstSeg :: "nat option"
  secondSeg :: "nat option"
  thirdSeg :: "nat option"
  currentHour :: int
  currentMin :: int
  currentSec :: int
  currentTemp :: int
  currentHumid :: int
  inTwoToneMode :: bool
  inSeriesMode :: bool
  inSecsMinsMode :: bool
  inManualMode :: bool
  inTempHumidMode :: bool
  digit0Value :: int
  digit1Value :: int
  digit2Value :: int
  digit3Value :: int
  lastTwoToneMode :: bool
  lastInSeriesMode :: bool
  lastTempHumidMode :: bool
  lastDHT11TimeRead :: "32 word"

text \<open>
  What one call reads from outside: the local time of the clock service, the two values
  \<^verbatim>\<open>millis()\<close> returns to \<^verbatim>\<open>readTempAndHumid\<close> (in its test, then in its assignment), and
  the two readings of the DHT11 driver as the \<^verbatim>\<open>int\<close> they are stored as.
\<close>

record Env =
  hour :: int
  minute :: int
  second :: int
  millis_test :: "32 word"
  millis_stamp :: "32 word"
  readTemperature :: int
  readHumidity :: int

text \<open>Sequencing of fallible steps: the first error ends the call.\<close>

fun andThen :: "error + 'a \<Rightarrow> ('a \<Rightarrow> error + 'b) \<Rightarrow> error + 'b" where
  "andThen (Inl e) f = Inl e"
| "andThen (Inr x) f = f x"

text \<open>C's \<^verbatim>\<open>/\<close> and \<^verbatim>\<open>%\<close> on \<^verbatim>\<open>int\<close> truncate towards zero.\<close>

definition c_div :: "int \<Rightarrow> int \<Rightarrow> int" where
  "c_div a b = sgn a * sgn b * (\<bar>a\<bar> div \<bar>b\<bar>)"

definition c_mod :: "int \<Rightarrow> int \<Rightarrow> int" where
  "c_mod a b = a - b * c_div a b"

text \<open>The use \<^verbatim>\<open>*p\<close> of a segment pointer, and the read \<^verbatim>\<open>segments[k]\<close>.\<close>

definition deref :: "nat option \<Rightarrow> error + nat" where
  "deref p = (case p of None \<Rightarrow> Inl BadPointer | Some q \<Rightarrow> Inr q)"

definition segments_at :: "NanoLeafDisplay \<Rightarrow> int \<Rightarrow> error + nat" where
  "segments_at st k =
    (if 0 \<le> k \<and> k < NUM_OF_SEGMENTS then deref (segments st (nat k)) else Inl OutOfBounds)"

subsection \<open>Wiring: setSegments and getSegments\<close>

function setSegments_first :: "int \<Rightarrow> Strip \<Rightarrow> Strip" where
  "setSegments_first i s =
    (if i < NUM_FIRST_LEDS then setSegments_first (i + 1) (setSegment i i (i + 1) s) else s)"
  by pat_completeness auto
termination
  by (relation "measure (\<lambda>(i, s). nat (NUM_FIRST_LEDS - i))") auto

function setSegments_loop :: "int \<Rightarrow> int \<Rightarrow> int \<Rightarrow> int \<Rightarrow> int \<Rightarrow> Strip \<Rightarrow> Strip" where
  "setSegments_loop addrLedsPerSeg numOfSegments i segStart segEnd s =
    (if i < numOfSegments
     then setSegments_loop addrLedsPerSeg numOfSegments (i + 1)
            (segStart + addrLedsPerSeg) (segEnd + addrLedsPerSeg)
            (setSegment (i + NUM_FIRST_LEDS) segStart segEnd s)
     else s)"
  by pat_completeness auto
termination
  by (relation "measure (\<lambda>(a, n, i, b, e, s). nat (n - i))") auto

definition setSegments :: "int \<Rightarrow> int \<Rightarrow> Strip \<Rightarrow> Strip" where
  "setSegments addrLedsPerSeg numOfSegments s =
    setSegments_loop addrLedsPerSeg numOfSegments 0
      NUM_FIRST_LEDS (addrLedsPerSeg + NUM_FIRST_LEDS) (setSegments_first 0 s)"

function getSegments_loop :: "int \<Rightarrow> int \<Rightarrow> NanoLeafDisplay \<Rightarrow> error + NanoLeafDisplay" where
  "getSegments_loop numOfSegments i st =
    (if i < numOfSegments then
       (if 0 \<le> i \<and> i < NUM_OF_SEGMENTS
        then getSegments_loop numOfSegments (i + 1)
               (st\<lparr>segments := (segments st)(nat i := Some (nat (i + NUM_FIRST_LEDS)))\<rparr>)
        else Inl OutOfBounds)
     else Inr st)"
  by pat_completeness auto
termination
  by (relation "measure (\<lambda>(n, i, st). nat (n - i))") auto

definition getSegments :: "int \<Rightarrow> NanoLeafDisplay \<Rightarrow> error + NanoLeafDisplay" where
  "getSegments numOfSegments st =
    getSegments_loop numOfSegments 0
      (st\<lparr>firstSeg := Some 0, secondSeg := Some 1, thirdSeg := Some 2\<rparr>)"

subsection \<open>Copying properties and turning segments off\<close>

definition segCopyProps :: "nat \<Rightarrow> nat \<Rightarrow> int \<Rightarrow> Strip \<Rightarrow> Strip" where
  "segCopyProps seg1 seg2 seg1Id s0 =
    (let s1 = upd_seg seg1 (setColor 0 (colors0 (segs s0 seg2)) (seg1Id + NUM_FIRST_LEDS)) s0;
         s2 = setMode (seg1Id + NUM_FIRST_LEDS) (mode (segs s1 seg2)) s1;
         s3 = upd_seg seg1 (\<lambda>x. x\<lparr>speed := speed (segs s2 seg2)\<rparr>) s2;
         s4 = upd_seg seg1 (\<lambda>x. x\<lparr>intensity := intensity (segs s3 seg2)\<rparr>) s3
     in upd_seg seg1 (\<lambda>x. x\<lparr>palette := palette (segs s4 seg2)\<rparr>) s4)"

definition turnOffSeg :: "nat \<Rightarrow> int \<Rightarrow> Strip \<Rightarrow> Strip" where
  "turnOffSeg seg segId s0 =
    (let s1 = upd_seg seg (setColor 0 0 (segId + NUM_FIRST_LEDS)) s0;
         s2 = upd_seg seg (setColor 1 0 (segId + NUM_FIRST_LEDS)) s1;
         s3 = upd_seg seg (setColor 2 0 (segId + NUM_FIRST_LEDS)) s2
     in upd_seg seg (setOption 0 False) s3)"

function turnOffSegPixels_loop :: "int \<Rightarrow> int \<Rightarrow> Strip \<Rightarrow> Strip" where
  "turnOffSegPixels_loop startIndex i s =
    (if i < ADDR_LEDS_PER_SEG
     then turnOffSegPixels_loop startIndex (i + 1) (setPixelColor (startIndex + i) 0 s)
     else s)"
  by pat_completeness auto
termination
  by (relation "measure (\<lambda>(b, i, s). nat (ADDR_LEDS_PER_SEG - i))") auto

definition turnOffSegPixels :: "int \<Rightarrow> Strip \<Rightarrow> Strip" where
  "turnOffSegPixels segment s =
    turnOffSegPixels_loop (NUM_FIRST_LEDS + segment * ADDR_LEDS_PER_SEG) 0 s"

subsection \<open>Rendering a digit\<close>

text \<open>The body of the loop of \<^verbatim>\<open>setDigit\<close> after the test for the sentinel.\<close>

definition setDigit_body :: "int \<Rightarrow> int \<Rightarrow> NanoLeafDisplay \<Rightarrow> error + NanoLeafDisplay" where
  "setDigit_body digitIndex segIndex st =
    (if inTwoToneMode st \<or> inTempHumidMode st then
       andThen (segments_at st (digitIndex + segIndex))
         (\<lambda>p. Inr (st\<lparr>strip := turnOffSeg p (digitIndex + segIndex) (strip st)\<rparr>))
     else if inSeriesMode st then
       Inr (st\<lparr>strip := turnOffSegPixels (digitIndex + segIndex) (strip st)\<rparr>)
     else Inr st)"

function setDigit_loop :: "int \<Rightarrow> int \<Rightarrow> int \<Rightarrow> NanoLeafDisplay \<Rightarrow> error + NanoLeafDisplay" where
  "setDigit_loop digitIndex v i st =
    (if i < NUM_DIGITS then
       (case DIGITS_at v i of
          Inl e \<Rightarrow> Inl e
        | Inr segIndex \<Rightarrow>
            if segIndex = -1 then Inr st
            else andThen (setDigit_body digitIndex segIndex st)
                   (setDigit_loop digitIndex v (i + 1)))
     else Inr st)"
  by pat_completeness auto
termination
  by (relation "measure (\<lambda>(b, v, i, st). nat (NUM_DIGITS - i))") auto

definition setDigit :: "int \<Rightarrow> int \<Rightarrow> NanoLeafDisplay \<Rightarrow> error + NanoLeafDisplay" where
  "setDigit digit v st =
    setDigit_loop (NUM_OF_SEGMENTS - (SEGS_PER_DIGIT + digit * SEGS_PER_DIGIT)) v 0 st"

subsection \<open>Time, sensor and the render paths\<close>

definition updateTime :: "Env \<Rightarrow> NanoLeafDisplay \<Rightarrow> NanoLeafDisplay" where
  "updateTime env st =
    st\<lparr>currentHour := hour env, currentMin := minute env, currentSec := second env\<rparr>"

definition displayTime :: "Env \<Rightarrow> NanoLeafDisplay \<Rightarrow> error + NanoLeafDisplay" where
  "displayTime env st0 =
    (if inManualMode st0 then
       andThen (setDigit 0 (digit0Value st0) st0) (\<lambda>st1.
       andThen (setDigit 1 (digit1Value st1) st1) (\<lambda>st2.
       andThen (setDigit 2 (digit2Value st2) st2) (\<lambda>st3.
       setDigit 3 (digit3Value st3) st3)))
     else
       (let st = updateTime env st0 in
        if inSecsMinsMode st then
          andThen (setDigit 0 (c_div (currentMin st) 10) st) (\<lambda>st1.
          andThen (setDigit 1 (c_mod (currentMin st1) 10) st1) (\<lambda>st2.
          andThen (setDigit 2 (c_div (currentSec st2) 10) st2) (\<lambda>st3.
          setDigit 3 (c_mod (currentSec st3) 10) st3)))
        else
          andThen (setDigit 0 (c_div (currentHour st) 10) st) (\<lambda>st1.
          andThen (setDigit 1 (c_mod (currentHour st1) 10) st1) (\<lambda>st2.
          andThen (setDigit 2 (c_div (currentMin st2) 10) st2) (\<lambda>st3.
          setDigit 3 (c_mod (currentMin st3) 10) st3)))))"

text \<open>The loop of \<^verbatim>\<open>twoTone\<close>, from index \<open>i\<close> on.\<close>

function twoTone_loop :: "int \<Rightarrow> NanoLeafDisplay \<Rightarrow> error + NanoLeafDisplay" where
  "twoTone_loop i st =
    (if i < NUM_OF_SEGMENTS then
       andThen (segments_at st i) (\<lambda>seg1.
       andThen (deref (if i \<ge> midSegmentIndex then firstSeg st else secondSeg st)) (\<lambda>seg2.
       twoTone_loop (i + 1) (st\<lparr>strip := segCopyProps seg1 seg2 i (strip st)\<rparr>)))
     else Inr st)"
  by pat_completeness auto
termination
  by (relation "measure (\<lambda>(i, st). nat (NUM_OF_SEGMENTS - i))") auto

definition twoTone :: "Env \<Rightarrow> NanoLeafDisplay \<Rightarrow> error + NanoLeafDisplay" where
  "twoTone env st = andThen (twoTone_loop 0 st) (displayTime env)"

definition inSeries :: "Env \<Rightarrow> NanoLeafDisplay \<Rightarrow> error + NanoLeafDisplay" where
  "inSeries env st = displayTime env st"

definition dht11ReadingDelay :: int where
  "dht11ReadingDelay = 10000"

text \<open>
  In \<^verbatim>\<open>(millis() - lastDHT11TimeRead) > dht11ReadingDelay\<close> the operands are converted to
  \<^verbatim>\<open>unsigned long\<close>: the difference wraps around at \<open>2 ^ 32\<close> and is compared unsigned.
\<close>

definition readDue :: "Env \<Rightarrow> NanoLeafDisplay \<Rightarrow> bool" where
  "readDue env st \<longleftrightarrow>
    millis_test env - lastDHT11TimeRead st > word_of_int dht11ReadingDelay"

definition readTempAndHumid :: "Env \<Rightarrow> NanoLeafDisplay \<Rightarrow> NanoLeafDisplay" where
  "readTempAndHumid env st =
    (if readDue env st
     then st\<lparr>lastDHT11TimeRead := millis_stamp env,
             currentTemp := readTemperature env,
             currentHumid := readHumidity env\<rparr>
     else st)"

definition initDHT11Sensor :: "Env \<Rightarrow> NanoLeafDisplay \<Rightarrow> NanoLeafDisplay" where
  "initDHT11Sensor env st =
    st\<lparr>currentTemp := readTemperature env, currentHumid := readHumidity env\<rparr>"

text \<open>The loop of \<^verbatim>\<open>setTempHumidColors\<close>, from index \<open>i\<close> on.\<close>

function setTempHumidColors_loop :: "int \<Rightarrow> NanoLeafDisplay \<Rightarrow> error + NanoLeafDisplay" where
  "setTempHumidColors_loop i st =
    (if i < NUM_OF_SEGMENTS then
       andThen (segments_at st i) (\<lambda>seg1.
       andThen (deref (if i \<ge> midSegmentIndex
                       then (if currentTemp st > 0 then firstSeg st else secondSeg st)
                       else thirdSeg st)) (\<lambda>seg2.
       setTempHumidColors_loop (i + 1) (st\<lparr>strip := segCopyProps seg1 seg2 i (strip st)\<rparr>)))
     else Inr st)"
  by pat_completeness auto
termination
  by (relation "measure (\<lambda>(i, st). nat (NUM_OF_SEGMENTS - i))") auto

definition setTempHumidColors :: "NanoLeafDisplay \<Rightarrow> error + NanoLeafDisplay" where
  "setTempHumidColors st = setTempHumidColors_loop 0 st"

definition displayTempAndHumid :: "Env \<Rightarrow> NanoLeafDisplay \<Rightarrow> error + NanoLeafDisplay" where
  "displayTempAndHumid env st0 =
    andThen (setTempHumidColors (readTempAndHumid env st0)) (\<lambda>st.
    andThen (setDigit 0 (c_div (currentTemp st) 10) st) (\<lambda>st1.
    andThen (setDigit 1 (c_mod (currentTemp st1) 10) st1) (\<lambda>st2.
    andThen (setDigit 2 (c_div (currentHumid st2) 10) st2) (\<lambda>st3.
    setDigit 3 (c_mod (currentHumid st3) 10) st3))))"

subsection \<open>The usermod's entry points\<close>

text \<open>The method \<^verbatim>\<open>setup\<close>; its name is a keyword of the theory language.\<close>

definition setup_usermod :: "Env \<Rightarrow> NanoLeafDisplay \<Rightarrow> error + NanoLeafDisplay" where
  "setup_usermod env st =
    andThen
      (if inTwoToneMode st \<or> inTempHumidMode st
       then getSegments NUM_OF_SEGMENTS
              (st\<lparr>strip := setSegments ADDR_LEDS_PER_SEG NUM_OF_SEGMENTS (strip st)\<rparr>)
       else Inr st)
      (\<lambda>st'. Inr (initDHT11Sensor env st'))"

definition connected :: "Env \<Rightarrow> NanoLeafDisplay \<Rightarrow> NanoLeafDisplay" where
  "connected env st = readTempAndHumid env (updateTime env st)"

definition loop :: "Env \<Rightarrow> NanoLeafDisplay \<Rightarrow> error + NanoLeafDisplay" where
  "loop env st =
    (if inTwoToneMode st then twoTone env st
     else if inTempHumidMode st then displayTempAndHumid env st
     else Inr st)"

definition handleOverlayDraw :: "Env \<Rightarrow> NanoLeafDisplay \<Rightarrow> error + NanoLeafDisplay" where
  "handleOverlayDraw env st = (if inSeriesMode st then inSeries env st else Inr st)"

subsection \<open>Reading the configuration\<close>

text \<open>
  Modelled from the spec: the configuration store (section 6) exposes nine named fields,
  and a missing key keeps the value in memory. The object \<^verbatim>\<open>root["NanoLeafDisplay"]\<close> is
  \<open>None\<close> when the section is absent, and each field is \<open>None\<close> when its key is absent.
\<close>

record Config =
  cfg_TwoTone :: "bool option"
  cfg_InSeries :: "bool option"
  cfg_SecsMins :: "bool option"
  cfg_Manual :: "bool option"
  cfg_Digit1 :: "int option"
  cfg_Digit2 :: "int option"
  cfg_Digit3 :: "int option"
  cfg_Digit4 :: "int option"
  cfg_TempHumid :: "bool option"

text \<open>The object \<^verbatim>\<open>addToConfig\<close> writes: every key present, with the value in memory.\<close>

definition addToConfig :: "NanoLeafDisplay \<Rightarrow> Config" where
  "addToConfig st =
    \<lparr>cfg_TwoTone = Some (inTwoToneMode st), cfg_InSeries = Some (inSeriesMode st),
     cfg_SecsMins = Some (inSecsMinsMode st), cfg_Manual = Some (inManualMode st),
     cfg_Digit1 = Some (digit0Value st), cfg_Digit2 = Some (digit1Value st),
     cfg_Digit3 = Some (digit2Value st), cfg_Digit4 = Some (digit3Value st),
     cfg_TempHumid = Some (inTempHumidMode st)\<rparr>"

text \<open>The element \<^verbatim>\<open>top[key]\<close>: null when \<open>top\<close> is.\<close>

definition element :: "Config option \<Rightarrow> (Config \<Rightarrow> 'a option) \<Rightarrow> 'a option" where
  "element topObj field = (case topObj of None \<Rightarrow> None | Some c \<Rightarrow> field c)"

text \<open>Modelled from the spec: \<^verbatim>\<open>getJsonValue(elem, dest)\<close> stores the element in \<open>dest\<close> and
  returns true when the key is present, and keeps \<open>dest\<close> and returns false otherwise.\<close>

definition getJsonValue :: "'a option \<Rightarrow> 'a \<Rightarrow> bool \<times> 'a" where
  "getJsonValue elem dest = (case elem of None \<Rightarrow> (False, dest) | Some x \<Rightarrow> (True, x))"

text \<open>The nine reads of \<^verbatim>\<open>readFromConfig\<close>, with the flag \<^verbatim>\<open>configComplete\<close>.\<close>

definition readFields :: "Config option \<Rightarrow> NanoLeafDisplay \<Rightarrow> bool \<times> NanoLeafDisplay" where
  "readFields topObj st =
    (let (b1, v1) = getJsonValue (element topObj cfg_TwoTone) (inTwoToneMode st);
         (b2, v2) = getJsonValue (element topObj cfg_InSeries) (inSeriesMode st);
         (b3, v3) = getJsonValue (element topObj cfg_SecsMins) (inSecsMinsMode st);
         (b4, v4) = getJsonValue (element topObj cfg_Manual) (inManualMode st);
         (b5, v5) = getJsonValue (element topObj cfg_Digit1) (digit0Value st);
         (b6, v6) = getJsonValue (element topObj cfg_Digit2) (digit1Value st);
         (b7, v7) = getJsonValue (element topObj cfg_Digit3) (digit2Value st);
         (b8, v8) = getJsonValue (element topObj cfg_Digit4) (digit3Value st);
         (b9, v9) = getJsonValue (element topObj cfg_TempHumid) (inTempHumidMode st)
     in (topObj \<noteq> None \<and> b1 \<and> b2 \<and> b3 \<and> b4 \<and> b5 \<and> b6 \<and> b7 \<and> b8 \<and> b9,
         st\<lparr>inTwoToneMode := v1, inSeriesMode := v2, inSecsMinsMode := v3,
            inManualMode := v4, digit0Value := v5, digit1Value := v6, digit2Value := v7,
            digit3Value := v8, inTempHumidMode := v9\<rparr>))"

text \<open>The flat wiring of \<^verbatim>\<open>readFromConfig\<close> (its first branch) and the segmented wiring
  (its second branch).\<close>

definition wireFlat :: "NanoLeafDisplay \<Rightarrow> NanoLeafDisplay" where
  "wireFlat st =
    st\<lparr>strip := setSegment 0 NUM_FIRST_LEDS (NUM_FIRST_LEDS + NUM_OF_SEGMENTS * 3)
                   (resetSegments (strip st))\<rparr>"

definition wireSegmented :: "NanoLeafDisplay \<Rightarrow> error + NanoLeafDisplay" where
  "wireSegmented st =
    getSegments NUM_OF_SEGMENTS
      (st\<lparr>strip := setSegments ADDR_LEDS_PER_SEG NUM_OF_SEGMENTS (strip st)\<rparr>)"

text \<open>The last three assignments of \<^verbatim>\<open>readFromConfig\<close>.\<close>

definition rememberModes :: "NanoLeafDisplay \<Rightarrow> NanoLeafDisplay" where
  "rememberModes st =
    st\<lparr>lastTwoToneMode := inTwoToneMode st,
       lastInSeriesMode := inSeriesMode st,
       lastTempHumidMode := inTempHumidMode st\<rparr>"

definition readFromConfig ::
  "Config option \<Rightarrow> NanoLeafDisplay \<Rightarrow> error + (bool \<times> NanoLeafDisplay)" where
  "readFromConfig topObj st0 =
    (let (configComplete, st) = readFields topObj st0 in
     andThen
       (if inSeriesMode st \<and> lastInSeriesMode st \<noteq> inSeriesMode st then Inr (wireFlat st)
        else if (inTwoToneMode st \<and> lastTwoToneMode st \<noteq> inTwoToneMode st) \<or>
                (inTempHumidMode st \<and> lastTempHumidMode st \<noteq> inTempHumidMode st)
        then wireSegmented st
        else Inr st)
       (\<lambda>st'. Inr (configComplete, rememberModes st')))"

subsection \<open>The state after construction\<close>

text \<open>
  The member initialisers of the class. The pointers are not initialised; the time and
  sensor fields and the host's buffer have no initialiser either and are taken as 0.
\<close>

definition blank_segment :: Segment where
  "blank_segment = \<lparr>start = 0, stop = 0, colors0 = 0, colors1 = 0, colors2 = 0,
     mode = 0, speed = 0, intensity = 0, palette = 0, options = 0\<rparr>"

definition blank_strip :: Strip where
  "blank_strip = \<lparr>segs = (\<lambda>n. blank_segment), pixels = (\<lambda>i. 0)\<rparr>"

definition constructed :: NanoLeafDisplay where
  "constructed =
    \<lparr>strip = blank_strip, segments = (\<lambda>i. None),
     firstSeg = None, secondSeg = None, thirdSeg = None,
     currentHour = 0, currentMin = 0, currentSec = 0, currentTemp = 0, currentHumid = 0,
     inTwoToneMode = True, inSeriesMode = False, inSecsMinsMode = False,
     inManualMode = False, inTempHumidMode = False,
     digit0Value = 0, digit1Value = 0, digit2Value = 0, digit3Value = 0,
     lastTwoToneMode = True, lastInSeriesMode = False, lastTempHumidMode = False,
     lastDHT11TimeRead = 0\<rparr>"

subsection \<open>Successive sensor polls\<close>

text \<open>
  A call of \<^verbatim>\<open>readTempAndHumid\<close> on the time line: the milliseconds since boot at its
  test and at its assignment of \<^verbatim>\<open>lastDHT11TimeRead\<close> (\<^verbatim>\<open>millis()\<close> is that time modulo
  \<open>2 ^ 32\<close>), and the two values the sensor would return.
\<close>

type_synonym poll = "nat \<times> nat \<times> int \<times> int"

definition env_of_poll :: "poll \<Rightarrow> Env" where
  "env_of_poll c =
    (case c of (t_test, t_stamp, temp, humid) \<Rightarrow>
      \<lparr>hour = 0, minute = 0, second = 0,
       millis_test = of_nat t_test, millis_stamp = of_nat t_stamp,
       readTemperature = temp, readHumidity = humid\<rparr>)"

text \<open>The calls of a sequence that read the sensor, each with its two times.\<close>

fun sensorReads :: "poll list \<Rightarrow> NanoLeafDisplay \<Rightarrow> (nat \<times> nat) list" where
  "sensorReads [] st = []"
| "sensorReads (c # cs) st =
    (if readDue (env_of_poll c) st then [(fst c, fst (snd c))] else []) @
    sensorReads cs (readTempAndHumid (env_of_poll c) st)"

text \<open>The calls are in the order of time, none before \<open>t\<close>.\<close>

fun chronological :: "nat \<Rightarrow> poll list \<Rightarrow> bool" where
  "chronological t [] = True"
| "chronological t (c # cs) =
    (t \<le> fst c \<and> fst c \<le> fst (snd c) \<and> chronological (fst (snd c)) cs)"

text \<open>Each read is tested more than 10000 ms after the stamp of the read before it
  (\<open>t\<close> for the first).\<close>

fun spaced :: "nat \<Rightarrow> (nat \<times> nat) list \<Rightarrow> bool" where
  "spaced t [] = True"
| "spaced t (r # rs) = (t + 10000 < fst r \<and> spaced (snd r) rs)"

subsection \<open>Notions the properties are stated with\<close>

text \<open>
  The pointers as \<^verbatim>\<open>getSegments\<close> leaves them: the three colour sources are the host's
  segments 0, 1 and 2, and \<^verbatim>\<open>segments[i]\<close> is the host's segment \<open>i + 3\<close>.
\<close>

definition wired :: "NanoLeafDisplay \<Rightarrow> bool" where
  "wired st \<longleftrightarrow>
    firstSeg st = Some 0 \<and> secondSeg st = Some 1 \<and> thirdSeg st = Some 2 \<and>
    (\<forall>i < 28. segments st i = Some (i + 3))"

text \<open>A segment that \<^verbatim>\<open>turnOffSeg\<close> has turned off: its three colours black, option bit 0
  cleared.\<close>

definition turnedOff :: "Segment \<Rightarrow> Segment" where
  "turnedOff x = x\<lparr>colors0 := 0, colors1 := 0, colors2 := 0, options := unset_bit 0 (options x)\<rparr>"

text \<open>A segment that \<^verbatim>\<open>segCopyProps\<close> has copied the properties of \<open>src\<close> to.\<close>

definition copied :: "Segment \<Rightarrow> Segment \<Rightarrow> Segment" where
  "copied src x =
    x\<lparr>colors0 := colors0 src, mode := mode src, speed := speed src,
      intensity := intensity src, palette := palette src\<rparr>"

text \<open>The body of the loop of \<^verbatim>\<open>setDigit\<close>, run on each offset of a list in turn.\<close>

fun blankAll :: "int \<Rightarrow> int list \<Rightarrow> NanoLeafDisplay \<Rightarrow> error + NanoLeafDisplay" where
  "blankAll digitIndex [] st = Inr st"
| "blankAll digitIndex (segIndex # offs) st =
    andThen (setDigit_body digitIndex segIndex st) (blankAll digitIndex offs)"

text \<open>
  The host's segments after a loop that copies properties has run from index \<open>i\<close> to the
  end, where \<open>src n\<close> is the colour source of the host's segment \<open>n\<close>.
\<close>

definition copyFrom :: "(nat \<Rightarrow> nat) \<Rightarrow> int \<Rightarrow> (nat \<Rightarrow> Segment) \<Rightarrow> nat \<Rightarrow> Segment" where
  "copyFrom src i f = (\<lambda>n. if i + 3 \<le> int n \<and> int n < 31 then copied (f (src n)) (f n) else f n)"

definition twoTone_source :: "nat \<Rightarrow> nat" where
  "twoTone_source n = (if int n - 3 \<ge> 14 then 0 else 1)"

definition tempHumid_source :: "int \<Rightarrow> nat \<Rightarrow> nat" where
  "tempHumid_source temp n = (if int n - 3 \<ge> 14 then (if temp > 0 then 0 else 1) else 2)"

text \<open>The four calls of \<^verbatim>\<open>setDigit\<close> that end \<^verbatim>\<open>displayTempAndHumid\<close>, after the sensor
  was read and the colours were set.\<close>

definition tempHumidDigits :: "NanoLeafDisplay \<Rightarrow> error + NanoLeafDisplay" where
  "tempHumidDigits st =
    andThen (setDigit 0 (c_div (currentTemp st) 10) st) (\<lambda>st1.
    andThen (setDigit 1 (c_mod (currentTemp st1) 10) st1) (\<lambda>st2.
    andThen (setDigit 2 (c_div (currentHumid st2) 10) st2) (\<lambda>st3.
    setDigit 3 (c_mod (currentHumid st3) 10) st3)))"

text \<open>The ranges of the segmented wiring: one LED for each colour source, then three LEDs
  for each of the 28 segments.\<close>

definition segmented_ranges :: "(nat \<Rightarrow> Segment) \<Rightarrow> nat \<Rightarrow> Segment" where
  "segmented_ranges f = (\<lambda>k.
    if k < 3 then (f k)\<lparr>start := int k, stop := int k + 1\<rparr>
    else if k < 31 then (f k)\<lparr>start := 3 + 3 * (int k - 3), stop := 6 + 3 * (int k - 3)\<rparr>
    else f k)"

text \<open>The local time of the clock service is a time of day.\<close>

definition valid_clock :: "Env \<Rightarrow> bool" where
  "valid_clock env \<longleftrightarrow>
    0 \<le> hour env \<and> hour env \<le> 23 \<and> 0 \<le> minute env \<and> minute env \<le> 59 \<and>
    0 \<le> second env \<and> second env \<le> 59"

subsection \<open>Example states and inputs\<close>

text \<open>A display whose pointers are set, with three different colour sources and every
  other segment of the host lit.\<close>

definition example_strip :: Strip where
  "example_strip =
    \<lparr>segs = (\<lambda>n. blank_segment\<lparr>colors0 := 0x111111, colors1 := 0x111111,
                 colors2 := 0x111111, options := 255\<rparr>)
       (0 := blank_segment\<lparr>colors0 := 0xFF0000, mode := 1, speed := 10, intensity := 20, palette := 3\<rparr>,
        1 := blank_segment\<lparr>colors0 := 0x0000FF, mode := 2, speed := 11, intensity := 21, palette := 4\<rparr>,
        2 := blank_segment\<lparr>colors0 := 0x00FF00, mode := 5, speed := 12, intensity := 22, palette := 6\<rparr>),
     pixels = (\<lambda>i. 0xFFFFFF)\<rparr>"

definition example_wired :: NanoLeafDisplay where
  "example_wired =
    constructed\<lparr>strip := example_strip,
      segments := (\<lambda>i. if i < 28 then Some (i + 3) else None),
      firstSeg := Some 0, secondSeg := Some 1, thirdSeg := Some 2\<rparr>"

definition example_series :: NanoLeafDisplay where
  "example_series =
    constructed\<lparr>strip := example_strip, inTwoToneMode := False, inSeriesMode := True,
      lastTwoToneMode := False, lastInSeriesMode := True\<rparr>"

definition example_env :: Env where
  "example_env = \<lparr>hour = 12, minute = 34, second = 56, millis_test = 20000,
     millis_stamp = 20000, readTemperature = 21, readHumidity = 40\<rparr>"

definition example_polls :: "poll list" where
  "example_polls =
    [(9500, 9500, 21, 40), (10001, 10002, 22, 41), (20002, 20002, 23, 42),
     (20003, 20004, 24, 43)]"

text \<open>The wired display in temperature and humidity mode, and in manual mode with a
  first digit of 12.\<close>

definition example_tempHumid :: NanoLeafDisplay where
  "example_tempHumid =
    example_wired\<lparr>inTwoToneMode := False, inTempHumidMode := True,
      lastTwoToneMode := False, lastTempHumidMode := True\<rparr>"

definition example_manual :: NanoLeafDisplay where
  "example_manual = example_wired\<lparr>inManualMode := True, digit0Value := 12\<rparr>"

text \<open>Configurations with every key present.\<close>

definition config_of :: "bool \<Rightarrow> bool \<Rightarrow> bool \<Rightarrow> Config" where
  "config_of tt ser th =
    \<lparr>cfg_TwoTone = Some tt, cfg_InSeries = Some ser, cfg_SecsMins = Some False,
     cfg_Manual = Some False, cfg_Digit1 = Some 0, cfg_Digit2 = Some 0, cfg_Digit3 = Some 0,
     cfg_Digit4 = Some 0, cfg_TempHumid = Some th\<rparr>"

text \<open>The constructed display after two-tone mode was disabled.\<close>

definition modes_off :: NanoLeafDisplay where
  "modes_off = constructed\<lparr>inTwoToneMode := False, lastTwoToneMode := False\<rparr>"

text \<open>That display after one update has enabled two-tone mode and series mode together:
  the state \<^verbatim>\<open>readFromConfig\<close> leaves.\<close>

definition both_enabled :: NanoLeafDisplay where
  "both_enabled =
    rememberModes (wireFlat (modes_off\<lparr>inTwoToneMode := True, inSeriesMode := True\<rparr>))"

section \<open>Properties\<close>

declare setSegments_first.simps [simp del]
declare setSegments_loop.simps [simp del]
declare getSegments_loop.simps [simp del]
declare turnOffSegPixels_loop.simps [simp del]
declare setDigit_loop.simps [simp del]
declare twoTone_loop.simps [simp del]
declare setTempHumidColors_loop.simps [simp del]

subsection \<open>The glyph table\<close>

lemma digit_value_cases:
  "0 \<le> v \<Longrightarrow> v \<le> 9 \<Longrightarrow> v \<in> {0, 1, 2, 3, 4, 5, 6, 7, 8, 9 :: int}"
  by simp presburger

lemma DIGITS_at_rows:
  "DIGITS_at 0 i = (if 0 \<le> i \<and> i < 28 then Inr (([3, -1, -1, -1, -1, -1, -1] @ replicate 21 0) ! nat i) else Inl OutOfBounds)"
  "DIGITS_at 1 i = (if 0 \<le> i \<and> i < 28 then Inr (([1, 2, 3, 5, 6, -1, -1] @ replicate 21 0) ! nat i) else Inl OutOfBounds)"
  "DIGITS_at 2 i = (if 0 \<le> i \<and> i < 28 then Inr (([0, 6, -1, -1, -1, -1, -1] @ replicate 21 0) ! nat i) else Inl OutOfBounds)"
  "DIGITS_at 3 i = (if 0 \<le> i \<and> i < 28 then Inr (([2, 6, -1, -1, -1, -1, -1] @ replicate 21 0) ! nat i) else Inl OutOfBounds)"
  "DIGITS_at 4 i = (if 0 \<le> i \<and> i < 28 then Inr (([1, 2, 5, -1, -1, -1, -1] @ replicate 21 0) ! nat i) else Inl OutOfBounds)"
  "DIGITS_at 5 i = (if 0 \<le> i \<and> i < 28 then Inr (([2, 4, -1, -1, -1, -1, -1] @ replicate 21 0) ! nat i) else Inl OutOfBounds)"
  "DIGITS_at 6 i = (if 0 \<le> i \<and> i < 28 then Inr (([4, -1, -1, -1, -1, -1, -1] @ replicate 21 0) ! nat i) else Inl OutOfBounds)"
  "DIGITS_at 7 i = (if 0 \<le> i \<and> i < 28 then Inr (([1, 2, 3, 6, -1, -1, -1] @ replicate 21 0) ! nat i) else Inl OutOfBounds)"
  "DIGITS_at 8 i = (if 0 \<le> i \<and> i < 28 then Inr (([-1, -1, -1, -1, -1, -1, -1] @ replicate 21 0) ! nat i) else Inl OutOfBounds)"
  "DIGITS_at 9 i = (if 0 \<le> i \<and> i < 28 then Inr (([2, -1, -1, -1, -1, -1, -1] @ replicate 21 0) ! nat i) else Inl OutOfBounds)"
  by (simp_all add: DIGITS_at_def DIGITS_def row_def NUM_OF_SEGMENTS_def NUM_DIGITS_def
      eval_nat_numeral)

lemma setDigit_offsets_values:
  "setDigit_offsets 0 0 = Inr [3]"
  "setDigit_offsets 1 0 = Inr [1, 2, 3, 5, 6]"
  "setDigit_offsets 2 0 = Inr [0, 6]"
  "setDigit_offsets 3 0 = Inr [2, 6]"
  "setDigit_offsets 4 0 = Inr [1, 2, 5]"
  "setDigit_offsets 5 0 = Inr [2, 4]"
  "setDigit_offsets 6 0 = Inr [4]"
  "setDigit_offsets 7 0 = Inr [1, 2, 3, 6]"
  "setDigit_offsets 8 0 = Inr []"
  "setDigit_offsets 9 0 = Inr [2]"
  by (simp_all add: setDigit_offsets.simps DIGITS_at_rows NUM_DIGITS_def)

text \<open>
  C1. For every value \<open>v\<close> in 0..9 the glyph lookup yields exactly the documented set of
  offsets to blank (0: {3}, 1: {1,2,3,5,6}, 2: {0,6}, 3: {2,6}, 4: {1,2,5}, 5: {2,4},
  6: {4}, 7: {1,2,3,6}, 8: {}, 9: {2}), every offset lies in 0..6, and the table has
  exactly 10 entries.
\<close>

theorem glyph_table_exact:
  "length DIGITS = 10 \<and>
   (\<forall>v. 0 \<le> v \<and> v \<le> 9 \<longrightarrow>
      (\<exists>offs. setDigit_offsets v 0 = Inr offs \<and> distinct offs \<and>
         set offs = spec_segmentsToBlank v \<and> set offs \<subseteq> {0..6}))"
proof (intro conjI allI impI)
  show "length DIGITS = 10"
    by (simp add: DIGITS_def)
next
  fix v :: int
  assume "0 \<le> v \<and> v \<le> 9"
  then have "v \<in> {0, 1, 2, 3, 4, 5, 6, 7, 8, 9}"
    by (intro digit_value_cases) simp_all
  then show "\<exists>offs. setDigit_offsets v 0 = Inr offs \<and> distinct offs \<and>
      set offs = spec_segmentsToBlank v \<and> set offs \<subseteq> {0..6}"
    by (elim insertE emptyE)
      (simp_all add: setDigit_offsets_values spec_segmentsToBlank_def)
qed

theorem glyph_table_exact_witness:
  "length DIGITS = 10 \<and> (0::int) \<le> 7 \<and> (7::int) \<le> 9 \<and>
   setDigit_offsets 7 0 = Inr [1, 2, 3, 6] \<and>
   set [1, 2, 3, 6] = spec_segmentsToBlank 7 \<and> set [1, 2, 3, 6 :: int] \<subseteq> {0..6}"
  using glyph_table_exact [THEN conjunct2, rule_format, of 7] glyph_table_exact [THEN conjunct1]
  by (simp add: setDigit_offsets_values spec_segmentsToBlank_def)

subsection \<open>Turning the segments of a digit off\<close>

lemma turnOffSeg_eq:
  "turnOffSeg p k s = s\<lparr>segs := (segs s)(p := turnedOff (segs s p))\<rparr>"
  by (simp add: turnOffSeg_def upd_seg_def setColor_def setOption_def turnedOff_def Let_def)

lemma unset_bit_twice: "unset_bit n (unset_bit n (w :: 8 word)) = unset_bit n w"
  by (rule bit_eqI) (auto simp add: bit_unset_bit_iff)

lemma turnedOff_idem: "turnedOff (turnedOff x) = turnedOff x"
  by (simp add: turnedOff_def unset_bit_twice)

lemma segments_at_wired:
  "wired st \<Longrightarrow> 0 \<le> k \<Longrightarrow> k < 28 \<Longrightarrow> segments_at st k = Inr (nat k + 3)"
  by (simp add: wired_def segments_at_def NUM_OF_SEGMENTS_def deref_def)

lemma wired_strip_update [simp]: "wired (st\<lparr>strip := s\<rparr>) = wired st"
  by (simp add: wired_def)

lemma setDigit_loop_blankAll:
  "setDigit_offsets v i = Inr offs \<Longrightarrow> setDigit_loop b v i st = blankAll b offs st"
proof (induction b v i st arbitrary: offs rule: setDigit_loop.induct)
  case (1 b v i st)
  show ?case
  proof (cases "i < NUM_DIGITS")
    case False
    with "1.prems" show ?thesis
      by (simp add: setDigit_loop.simps [of b v i] setDigit_offsets.simps [of v i])
  next
    case True
    show ?thesis
    proof (cases "DIGITS_at v i")
      case (Inl e)
      with True "1.prems" show ?thesis
        by (simp add: setDigit_offsets.simps [of v i])
    next
      case (Inr segIndex)
      show ?thesis
      proof (cases "segIndex = -1")
        case True
        with \<open>i < NUM_DIGITS\<close> Inr "1.prems" show ?thesis
          by (simp add: setDigit_loop.simps [of b v i] setDigit_offsets.simps [of v i])
      next
        case False
        with \<open>i < NUM_DIGITS\<close> Inr "1.prems" obtain rest where
          rest: "setDigit_offsets v (i + 1) = Inr rest" and offs: "offs = segIndex # rest"
          by (auto simp add: setDigit_offsets.simps [of v i] split: sum.splits)
        have "\<And>st'. setDigit_loop b v (i + 1) st' = blankAll b rest st'"
          using "1.IH" [OF \<open>i < NUM_DIGITS\<close> Inr False rest] .
        then have "setDigit_loop b v (i + 1) = blankAll b rest"
          by (rule ext)
        with \<open>i < NUM_DIGITS\<close> Inr False offs show ?thesis
          by (simp add: setDigit_loop.simps [of b v i])
      qed
    qed
  qed
qed

lemma setDigit_as_blankAll:
  "setDigit_offsets v 0 = Inr offs \<Longrightarrow> setDigit d v st = blankAll (28 - 7 * (d + 1)) offs st"
  using setDigit_loop_blankAll [of v 0 offs _ st]
  by (simp add: setDigit_def NUM_OF_SEGMENTS_def SEGS_PER_DIGIT_def algebra_simps)

lemma setDigit_body_segmented:
  "wired st \<Longrightarrow> inTwoToneMode st \<or> inTempHumidMode st \<Longrightarrow> 0 \<le> b + x \<Longrightarrow> b + x < 28 \<Longrightarrow>
   setDigit_body b x st =
     Inr (st\<lparr>strip := (strip st)\<lparr>segs := (segs (strip st))
        (nat (b + x) + 3 := turnedOff (segs (strip st) (nat (b + x) + 3)))\<rparr>\<rparr>)"
  by (simp add: setDigit_body_def segments_at_wired turnOffSeg_eq)

text \<open>
  The host's segments after the offsets of a list were turned off, in the two modes that
  use the segmented wiring.
\<close>

lemma blankAll_segmented:
  "wired st \<Longrightarrow> inTwoToneMode st \<or> inTempHumidMode st \<Longrightarrow>
   \<forall>x \<in> set offs. 0 \<le> b + x \<and> b + x < 28 \<Longrightarrow>
   blankAll b offs st =
     Inr (st\<lparr>strip := (strip st)\<lparr>segs := (\<lambda>n.
        if int n - 3 - b \<in> set offs \<and> 3 \<le> n then turnedOff (segs (strip st) n) else segs (strip st) n)\<rparr>\<rparr>)"
proof (induction offs arbitrary: st)
  case Nil
  then show ?case by simp
next
  case (Cons x offs)
  let ?st1 = "st\<lparr>strip := (strip st)\<lparr>segs := (segs (strip st))
        (nat (b + x) + 3 := turnedOff (segs (strip st) (nat (b + x) + 3)))\<rparr>\<rparr>"
  have body: "setDigit_body b x st = Inr ?st1"
    using Cons.prems by (intro setDigit_body_segmented) simp_all
  have "blankAll b offs ?st1 = Inr (?st1\<lparr>strip := (strip ?st1)\<lparr>segs := (\<lambda>n.
        if int n - 3 - b \<in> set offs \<and> 3 \<le> n then turnedOff (segs (strip ?st1) n) else segs (strip ?st1) n)\<rparr>\<rparr>)"
    using Cons.prems by (intro Cons.IH) simp_all
  moreover have "(\<lambda>n. if int n - 3 - b \<in> set offs \<and> 3 \<le> n then turnedOff (segs (strip ?st1) n) else segs (strip ?st1) n)
     = (\<lambda>n. if int n - 3 - b \<in> set (x # offs) \<and> 3 \<le> n then turnedOff (segs (strip st) n) else segs (strip st) n)"
    using Cons.prems(3) by (auto simp add: fun_eq_iff turnedOff_idem)
  ultimately show ?case
    using body by simp
qed

lemma turnOffSegPixels_eq:
  "turnOffSegPixels k s =
    s\<lparr>pixels := (pixels s)(3 + k * 3 := 0, 3 + k * 3 + 1 := 0, 3 + k * 3 + 2 := 0)\<rparr>"
  by (simp add: turnOffSegPixels_def turnOffSegPixels_loop.simps [of _ 0]
      turnOffSegPixels_loop.simps [of _ 1] turnOffSegPixels_loop.simps [of _ 2]
      turnOffSegPixels_loop.simps [of _ 3]
      ADDR_LEDS_PER_SEG_def NUM_FIRST_LEDS_def setPixelColor_def)

lemma pixel_of_segment:
  "0 \<le> k \<Longrightarrow> (p = 3 + k * 3 \<or> p = 3 + k * 3 + 1 \<or> p = 3 + k * 3 + 2) \<longleftrightarrow>
     (3 \<le> p \<and> (p - 3) div 3 = (k :: int))"
  by auto

lemma blankAll_series:
  "\<not> inTwoToneMode st \<Longrightarrow> \<not> inTempHumidMode st \<Longrightarrow> inSeriesMode st \<Longrightarrow>
   \<forall>x \<in> set offs. 0 \<le> b + x \<Longrightarrow>
   blankAll b offs st =
     Inr (st\<lparr>strip := (strip st)\<lparr>pixels := (\<lambda>p.
        if 3 \<le> p \<and> (p - 3) div 3 - b \<in> set offs then 0 else pixels (strip st) p)\<rparr>\<rparr>)"
proof (induction offs arbitrary: st)
  case Nil
  then show ?case by simp
next
  case (Cons x offs)
  let ?k = "b + x"
  let ?st1 = "st\<lparr>strip := (strip st)\<lparr>pixels := (pixels (strip st))
        (3 + ?k * 3 := 0, 3 + ?k * 3 + 1 := 0, 3 + ?k * 3 + 2 := 0)\<rparr>\<rparr>"
  have body: "setDigit_body b x st = Inr ?st1"
    using Cons.prems by (simp add: setDigit_body_def turnOffSegPixels_eq)
  have "blankAll b offs ?st1 = Inr (?st1\<lparr>strip := (strip ?st1)\<lparr>pixels := (\<lambda>p.
        if 3 \<le> p \<and> (p - 3) div 3 - b \<in> set offs then 0 else pixels (strip ?st1) p)\<rparr>\<rparr>)"
    using Cons.prems by (intro Cons.IH) simp_all
  moreover have "(\<lambda>p. if 3 \<le> p \<and> (p - 3) div 3 - b \<in> set offs then 0 else pixels (strip ?st1) p)
     = (\<lambda>p. if 3 \<le> p \<and> (p - 3) div 3 - b \<in> set (x # offs) then 0 else pixels (strip st) p)"
  proof
    fix p :: int
    have k: "0 \<le> ?k" using Cons.prems(4) by simp
    have "(p = 3 + ?k * 3 \<or> p = 3 + ?k * 3 + 1 \<or> p = 3 + ?k * 3 + 2) \<longleftrightarrow>
        (3 \<le> p \<and> (p - 3) div 3 - b = x)"
      using pixel_of_segment [OF k, of p] by auto
    then show "(if 3 \<le> p \<and> (p - 3) div 3 - b \<in> set offs then 0 else pixels (strip ?st1) p)
      = (if 3 \<le> p \<and> (p - 3) div 3 - b \<in> set (x # offs) then 0 else pixels (strip st) p)"
      by (cases "3 \<le> p \<and> (p - 3) div 3 - b = x") auto
  qed
  ultimately show ?case
    using body by simp
qed

lemma setDigit_offsets_spec:
  assumes "0 \<le> v" "v \<le> 9"
  obtains offs where "setDigit_offsets v 0 = Inr offs" "set offs = spec_segmentsToBlank v"
    "set offs \<subseteq> {0..6}"
proof -
  from assms have "v \<in> {0, 1, 2, 3, 4, 5, 6, 7, 8, 9}"
    by (intro digit_value_cases) simp_all
  then have "\<exists>offs. setDigit_offsets v 0 = Inr offs \<and> set offs = spec_segmentsToBlank v \<and>
      set offs \<subseteq> {0..6}"
    by (elim insertE emptyE)
      (simp_all add: setDigit_offsets_values spec_segmentsToBlank_def)
  then show thesis
    using that by blast
qed

lemma example_wired_wired: "wired example_wired"
  by (simp add: wired_def example_wired_def)

text \<open>
  C2. For every digit position \<open>d\<close> in 0..3 and value \<open>v\<close> in 0..9, \<^verbatim>\<open>setDigit\<close> takes
  \<open>28 - 7 * (d + 1)\<close> as the base index of the digit and turns off exactly the segments
  base + offset for the offsets of the glyph of \<open>v\<close>; every other segment stays as it was.
  With the segmented wiring (two-tone or temperature mode, pointers set) the display's
  segment \<open>k\<close> is the host's segment \<open>n = k + 3\<close>, and the call turns off those \<open>n\<close> with
  \<open>n - 3 - base\<close> in the glyph set and changes nothing else. With the flat wiring (series
  mode alone) it blacks out the three pixels \<open>3 + 3 * k .. 3 + 3 * k + 2\<close> of those
  segments and changes nothing else. The value 0 at position 0 (base 21) turns off only
  the segment at offset 3.
\<close>

theorem setDigit_blanks_glyph:
  assumes "0 \<le> d" "d \<le> 3" "0 \<le> v" "v \<le> 9"
  shows "(wired st \<and> (inTwoToneMode st \<or> inTempHumidMode st) \<longrightarrow>
      setDigit d v st =
        Inr (st\<lparr>strip := (strip st)\<lparr>segs := (\<lambda>n.
          if int n - 3 - (28 - 7 * (d + 1)) \<in> spec_segmentsToBlank v \<and> 3 \<le> n
          then turnedOff (segs (strip st) n) else segs (strip st) n)\<rparr>\<rparr>)) \<and>
    (\<not> inTwoToneMode st \<and> \<not> inTempHumidMode st \<and> inSeriesMode st \<longrightarrow>
      setDigit d v st =
        Inr (st\<lparr>strip := (strip st)\<lparr>pixels := (\<lambda>p.
          if 3 \<le> p \<and> (p - 3) div 3 - (28 - 7 * (d + 1)) \<in> spec_segmentsToBlank v
          then 0 else pixels (strip st) p)\<rparr>\<rparr>))"
proof -
  obtain offs where offs: "setDigit_offsets v 0 = Inr offs"
    and glyph: "set offs = spec_segmentsToBlank v" and range: "set offs \<subseteq> {0..6}"
    using assms(3,4) by (rule setDigit_offsets_spec)
  let ?b = "28 - 7 * (d + 1)"
  have run: "setDigit d v st = blankAll ?b offs st"
    using setDigit_loop_blankAll [OF offs, of _ st]
    by (simp add: setDigit_def NUM_OF_SEGMENTS_def SEGS_PER_DIGIT_def algebra_simps)
  have bounds: "\<forall>x \<in> set offs. 0 \<le> ?b + x \<and> ?b + x < 28"
    using range assms(1,2) by auto
  show ?thesis
  proof (intro conjI impI)
    assume "wired st \<and> (inTwoToneMode st \<or> inTempHumidMode st)"
    then show "setDigit d v st =
        Inr (st\<lparr>strip := (strip st)\<lparr>segs := (\<lambda>n.
          if int n - 3 - ?b \<in> spec_segmentsToBlank v \<and> 3 \<le> n
          then turnedOff (segs (strip st) n) else segs (strip st) n)\<rparr>\<rparr>)"
      using blankAll_segmented [of st offs ?b] bounds by (simp add: run glyph)
  next
    assume "\<not> inTwoToneMode st \<and> \<not> inTempHumidMode st \<and> inSeriesMode st"
    then show "setDigit d v st =
        Inr (st\<lparr>strip := (strip st)\<lparr>pixels := (\<lambda>p.
          if 3 \<le> p \<and> (p - 3) div 3 - ?b \<in> spec_segmentsToBlank v
          then 0 else pixels (strip st) p)\<rparr>\<rparr>)"
      using blankAll_series [of st offs ?b] bounds by (simp add: run glyph)
  qed
qed

theorem setDigit_blanks_glyph_witness:
  "wired example_wired \<and> inTwoToneMode example_wired \<and>
   setDigit 0 0 example_wired =
     Inr (example_wired\<lparr>strip := (strip example_wired)\<lparr>segs :=
       (segs (strip example_wired))(27 := turnedOff (segs (strip example_wired) 27))\<rparr>\<rparr>) \<and>
   \<not> inTwoToneMode example_series \<and> \<not> inTempHumidMode example_series \<and>
   inSeriesMode example_series \<and>
   setDigit 0 0 example_series =
     Inr (example_series\<lparr>strip := (strip example_series)\<lparr>pixels :=
       (pixels (strip example_series))(75 := 0, 76 := 0, 77 := 0)\<rparr>\<rparr>) \<and>
   colors0 (segs (strip example_wired) 27) = 0x111111 \<and>
   colors0 (turnedOff (segs (strip example_wired) 27)) = 0 \<and>
   options (segs (strip example_wired) 27) = 255 \<and>
   options (turnedOff (segs (strip example_wired) 27)) = 254 \<and>
   pixels (strip example_series) 75 = 0xFFFFFF"
proof -
  have lit: "colors0 (segs (strip example_wired) 27) = 0x111111 \<and>
      colors0 (turnedOff (segs (strip example_wired) 27)) = 0 \<and>
      options (segs (strip example_wired) 27) = 255 \<and>
      options (turnedOff (segs (strip example_wired) 27)) = 254 \<and>
      pixels (strip example_series) 75 = 0xFFFFFF"
    by (simp add: example_wired_def example_series_def example_strip_def turnedOff_def
        blank_segment_def unset_bit_eq)
  have w: "wired example_wired \<and> inTwoToneMode example_wired"
    by (simp add: example_wired_wired) (simp add: example_wired_def constructed_def)
  have s: "\<not> inTwoToneMode example_series \<and> \<not> inTempHumidMode example_series \<and>
      inSeriesMode example_series"
    by (simp add: example_series_def constructed_def)
  have segs: "(\<lambda>n. if int n - 3 - (28 - 7 * (0 + 1)) \<in> spec_segmentsToBlank 0 \<and> 3 \<le> n
        then turnedOff (segs (strip example_wired) n) else segs (strip example_wired) n)
      = (segs (strip example_wired))(27 := turnedOff (segs (strip example_wired) 27))"
    by (auto simp add: fun_eq_iff spec_segmentsToBlank_def)
  have pix: "(\<lambda>p. if 3 \<le> p \<and> (p - 3) div 3 - (28 - 7 * (0 + 1)) \<in> spec_segmentsToBlank 0
        then 0 else pixels (strip example_series) p)
      = (pixels (strip example_series))(75 := 0, 76 := 0, 77 := 0)"
  proof
    fix p :: int
    have "(p = 75 \<or> p = 76 \<or> p = 77) \<longleftrightarrow> (3 \<le> p \<and> (p - 3) div 3 = 24)"
      using pixel_of_segment [of 24 p] by simp
    then show "(if 3 \<le> p \<and> (p - 3) div 3 - (28 - 7 * (0 + 1)) \<in> spec_segmentsToBlank 0
        then 0 else pixels (strip example_series) p)
      = ((pixels (strip example_series))(75 := 0, 76 := 0, 77 := 0)) p"
      by (auto simp add: spec_segmentsToBlank_def)
  qed
  have "wired example_wired \<and> inTwoToneMode example_wired \<and>
   setDigit 0 0 example_wired =
     Inr (example_wired\<lparr>strip := (strip example_wired)\<lparr>segs :=
       (segs (strip example_wired))(27 := turnedOff (segs (strip example_wired) 27))\<rparr>\<rparr>) \<and>
   \<not> inTwoToneMode example_series \<and> \<not> inTempHumidMode example_series \<and>
   inSeriesMode example_series \<and>
   setDigit 0 0 example_series =
     Inr (example_series\<lparr>strip := (strip example_series)\<lparr>pixels :=
       (pixels (strip example_series))(75 := 0, 76 := 0, 77 := 0)\<rparr>\<rparr>)"
    using setDigit_blanks_glyph [of 0 0 example_wired] setDigit_blanks_glyph [of 0 0 example_series]
      w s
    by (simp only: segs pix) simp
  with lit show ?thesis
    by blast
qed

subsection \<open>The sentinel of a glyph row\<close>

lemma DIGITS_nth:
  "DIGITS ! 0 = [3, -1, -1, -1, -1, -1, -1] @ replicate 21 0"
  "DIGITS ! Suc 0 = [1, 2, 3, 5, 6, -1, -1] @ replicate 21 0"
  "DIGITS ! 2 = [0, 6, -1, -1, -1, -1, -1] @ replicate 21 0"
  "DIGITS ! 3 = [2, 6, -1, -1, -1, -1, -1] @ replicate 21 0"
  "DIGITS ! 4 = [1, 2, 5, -1, -1, -1, -1] @ replicate 21 0"
  "DIGITS ! 5 = [2, 4, -1, -1, -1, -1, -1] @ replicate 21 0"
  "DIGITS ! 6 = [4, -1, -1, -1, -1, -1, -1] @ replicate 21 0"
  "DIGITS ! 7 = [1, 2, 3, 6, -1, -1, -1] @ replicate 21 0"
  "DIGITS ! 8 = [-1, -1, -1, -1, -1, -1, -1] @ replicate 21 0"
  "DIGITS ! 9 = [2, -1, -1, -1, -1, -1, -1] @ replicate 21 0"
  by (simp_all add: DIGITS_def row_def NUM_OF_SEGMENTS_def eval_nat_numeral)

text \<open>
  C9. For every value \<open>v\<close> in 0..9 the row of \<open>v\<close> is 28 wide and zero from column 7 on,
  its first \<open>-1\<close> lies within its first 7 columns, and \<^verbatim>\<open>setDigit\<close> runs the body of its
  loop on exactly the entries before that \<open>-1\<close>: the loop, which could run for 10 columns,
  ends at the sentinel and never reads the padding. Offset 0 is among the entries turned
  off only for the value 2, whose row lists it.
\<close>

theorem setDigit_stops_at_sentinel:
  assumes "0 \<le> v" "v \<le> 9"
  shows "length (DIGITS ! nat v) = 28 \<and>
    drop 7 (DIGITS ! nat v) = replicate 21 0 \<and>
    length (takeWhile (\<lambda>x. x \<noteq> -1) (DIGITS ! nat v)) < 7 \<and>
    DIGITS ! nat v ! length (takeWhile (\<lambda>x. x \<noteq> -1) (DIGITS ! nat v)) = -1 \<and>
    setDigit_offsets v 0 = Inr (takeWhile (\<lambda>x. x \<noteq> -1) (DIGITS ! nat v)) \<and>
    setDigit d v st = blankAll (28 - 7 * (d + 1)) (takeWhile (\<lambda>x. x \<noteq> -1) (DIGITS ! nat v)) st \<and>
    (0 \<in> set (takeWhile (\<lambda>x. x \<noteq> -1) (DIGITS ! nat v)) \<longleftrightarrow> v = 2)"
proof -
  from assms have "v \<in> {0, 1, 2, 3, 4, 5, 6, 7, 8, 9}"
    by (intro digit_value_cases) simp_all
  then have row: "length (DIGITS ! nat v) = 28 \<and>
    drop 7 (DIGITS ! nat v) = replicate 21 0 \<and>
    length (takeWhile (\<lambda>x. x \<noteq> -1) (DIGITS ! nat v)) < 7 \<and>
    DIGITS ! nat v ! length (takeWhile (\<lambda>x. x \<noteq> -1) (DIGITS ! nat v)) = -1 \<and>
    setDigit_offsets v 0 = Inr (takeWhile (\<lambda>x. x \<noteq> -1) (DIGITS ! nat v)) \<and>
    (0 \<in> set (takeWhile (\<lambda>x. x \<noteq> -1) (DIGITS ! nat v)) \<longleftrightarrow> v = 2)"
    by (elim insertE emptyE) (simp_all add: DIGITS_nth setDigit_offsets_values)
  then have "setDigit d v st =
      blankAll (28 - 7 * (d + 1)) (takeWhile (\<lambda>x. x \<noteq> -1) (DIGITS ! nat v)) st"
    by (intro setDigit_as_blankAll) simp
  with row show ?thesis
    by simp
qed

theorem setDigit_stops_at_sentinel_witness:
  "(0::int) \<le> 1 \<and> (1::int) \<le> 9 \<and>
   takeWhile (\<lambda>x. x \<noteq> -1) (DIGITS ! nat 1) = [1, 2, 3, 5, 6] \<and>
   DIGITS ! nat 1 ! 5 = -1 \<and>
   setDigit_offsets 1 0 = Inr [1, 2, 3, 5, 6] \<and>
   setDigit 0 1 example_wired = blankAll 21 [1, 2, 3, 5, 6] example_wired"
  using setDigit_stops_at_sentinel [of 1 0 example_wired]
  by (simp add: DIGITS_nth)

subsection \<open>The loops that copy the colour sources\<close>

lemma segCopyProps_eq:
  "seg2 \<noteq> seg1 \<Longrightarrow> nat (k + NUM_FIRST_LEDS) = seg1 \<Longrightarrow>
   segCopyProps seg1 seg2 k s = s\<lparr>segs := (segs s)(seg1 := copied (segs s seg2) (segs s seg1))\<rparr>"
  by (simp add: segCopyProps_def upd_seg_def setColor_def setMode_def copied_def Let_def)

lemma copy_step:
  assumes "0 \<le> i" "i < 28" "p < 3"
  shows "segCopyProps (nat i + 3) p i s =
    s\<lparr>segs := (segs s)(nat i + 3 := copied (segs s p) (segs s (nat i + 3)))\<rparr>"
  using assms by (intro segCopyProps_eq) (simp_all add: NUM_FIRST_LEDS_def nat_add_distrib)

lemma copyFrom_done: "copyFrom src 28 f = f"
  by (auto simp add: copyFrom_def fun_eq_iff)

lemma copyFrom_step:
  assumes "0 \<le> i" "i < 28" "\<And>n. src n < (3 :: nat)"
  shows "copyFrom src (i + 1) (f(nat i + 3 := copied (f (src (nat i + 3))) (f (nat i + 3))))
    = copyFrom src i f"
proof
  fix n :: nat
  have src: "src n \<noteq> nat i + 3" for n
    using assms(3) [of n] by simp
  show "copyFrom src (i + 1) (f(nat i + 3 := copied (f (src (nat i + 3))) (f (nat i + 3)))) n
    = copyFrom src i f n"
    using assms(1,2) src by (cases "n = nat i + 3") (auto simp add: copyFrom_def)
qed

lemma twoTone_loop_eq:
  "wired st \<Longrightarrow> 0 \<le> i \<Longrightarrow> i \<le> 28 \<Longrightarrow>
   twoTone_loop i st =
     Inr (st\<lparr>strip := (strip st)\<lparr>segs := copyFrom twoTone_source i (segs (strip st))\<rparr>\<rparr>)"
proof (induction i st rule: twoTone_loop.induct)
  case (1 i st)
  show ?case
  proof (cases "i < 28")
    case False
    with "1.prems" have "i = 28" by simp
    then show ?thesis
      by (simp add: twoTone_loop.simps [of 28] NUM_OF_SEGMENTS_def copyFrom_done)
  next
    case True
    let ?p = "if i \<ge> midSegmentIndex then firstSeg st else secondSeg st"
    let ?k = "nat i + 3"
    have src: "deref ?p = Inr (twoTone_source ?k)"
      using "1.prems" by (simp add: wired_def deref_def twoTone_source_def
          midSegmentIndex_def NUM_OF_SEGMENTS_def)
    have seg1: "segments_at st i = Inr ?k"
      using "1.prems" True by (intro segments_at_wired) simp_all
    have lt3: "twoTone_source n < 3" for n
      by (simp add: twoTone_source_def)
    define s1 where "s1 = segCopyProps ?k (twoTone_source ?k) i (strip st)"
    have s1: "s1 = (strip st)\<lparr>segs := (segs (strip st))(?k :=
        copied (segs (strip st) (twoTone_source ?k)) (segs (strip st) ?k))\<rparr>"
      unfolding s1_def using "1.prems" True lt3 by (intro copy_step) simp_all
    have "twoTone_loop (i + 1) (st\<lparr>strip := s1\<rparr>) =
      Inr (st\<lparr>strip := s1\<rparr>\<lparr>strip := (strip (st\<lparr>strip := s1\<rparr>))\<lparr>segs :=
        copyFrom twoTone_source (i + 1) (segs (strip (st\<lparr>strip := s1\<rparr>)))\<rparr>\<rparr>)"
      unfolding s1_def using "1.prems" True seg1 src
      by (intro "1.IH" [of ?k "twoTone_source ?k"]) (simp_all add: NUM_OF_SEGMENTS_def)
    then have "twoTone_loop (i + 1) (st\<lparr>strip := s1\<rparr>) =
      Inr (st\<lparr>strip := (strip st)\<lparr>segs := copyFrom twoTone_source i (segs (strip st))\<rparr>\<rparr>)"
      using copyFrom_step [of i twoTone_source "segs (strip st)"] "1.prems" True lt3
      by (simp add: s1)
    moreover have "twoTone_loop i st = twoTone_loop (i + 1) (st\<lparr>strip := s1\<rparr>)"
      using True seg1 src by (simp add: twoTone_loop.simps [of i] NUM_OF_SEGMENTS_def s1_def)
    ultimately show ?thesis
      by simp
  qed
qed

lemma setTempHumidColors_loop_eq:
  "wired st \<Longrightarrow> 0 \<le> i \<Longrightarrow> i \<le> 28 \<Longrightarrow>
   setTempHumidColors_loop i st =
     Inr (st\<lparr>strip := (strip st)\<lparr>segs :=
        copyFrom (tempHumid_source (currentTemp st)) i (segs (strip st))\<rparr>\<rparr>)"
proof (induction i st rule: setTempHumidColors_loop.induct)
  case (1 i st)
  let ?src = "tempHumid_source (currentTemp st)"
  show ?case
  proof (cases "i < 28")
    case False
    with "1.prems" have "i = 28" by simp
    then show ?thesis
      by (simp add: setTempHumidColors_loop.simps [of 28] NUM_OF_SEGMENTS_def copyFrom_done)
  next
    case True
    let ?p = "if i \<ge> midSegmentIndex
      then (if currentTemp st > 0 then firstSeg st else secondSeg st) else thirdSeg st"
    let ?k = "nat i + 3"
    have src: "deref ?p = Inr (?src ?k)"
      using "1.prems" by (simp add: wired_def deref_def tempHumid_source_def
          midSegmentIndex_def NUM_OF_SEGMENTS_def)
    have seg1: "segments_at st i = Inr ?k"
      using "1.prems" True by (intro segments_at_wired) simp_all
    have lt3: "?src n < 3" for n
      by (simp add: tempHumid_source_def)
    define s1 where "s1 = segCopyProps ?k (?src ?k) i (strip st)"
    have s1: "s1 = (strip st)\<lparr>segs := (segs (strip st))(?k :=
        copied (segs (strip st) (?src ?k)) (segs (strip st) ?k))\<rparr>"
      unfolding s1_def using "1.prems" True lt3 by (intro copy_step) simp_all
    have "setTempHumidColors_loop (i + 1) (st\<lparr>strip := s1\<rparr>) =
      Inr (st\<lparr>strip := s1\<rparr>\<lparr>strip := (strip (st\<lparr>strip := s1\<rparr>))\<lparr>segs :=
        copyFrom (tempHumid_source (currentTemp (st\<lparr>strip := s1\<rparr>))) (i + 1)
          (segs (strip (st\<lparr>strip := s1\<rparr>)))\<rparr>\<rparr>)"
      unfolding s1_def using "1.prems" True seg1 src
      by (intro "1.IH" [of ?k "?src ?k"]) (simp_all add: NUM_OF_SEGMENTS_def)
    then have "setTempHumidColors_loop (i + 1) (st\<lparr>strip := s1\<rparr>) =
      Inr (st\<lparr>strip := (strip st)\<lparr>segs := copyFrom ?src i (segs (strip st))\<rparr>\<rparr>)"
      using copyFrom_step [of i ?src "segs (strip st)"] "1.prems" True lt3
      by (simp add: s1)
    moreover have "setTempHumidColors_loop i st =
        setTempHumidColors_loop (i + 1) (st\<lparr>strip := s1\<rparr>)"
      using True seg1 src
      by (simp add: setTempHumidColors_loop.simps [of i] NUM_OF_SEGMENTS_def s1_def)
    ultimately show ?thesis
      by simp
  qed
qed

text \<open>
  C6. In the two-tone render, with the pointers set, the loop of \<^verbatim>\<open>twoTone\<close> succeeds, and
  for every segment index \<open>i\<close> in 0..27 it leaves the segment (the host's segment \<open>i + 3\<close>)
  with the colour, effect mode, speed, intensity and palette of the first colour source
  when \<open>i \<ge> 14\<close> and of the second colour source when \<open>i < 14\<close>; the colour sources
  themselves are not changed. \<^verbatim>\<open>twoTone\<close> then displays the time on that state. Segment 20
  copies from source A, segment 5 from source B.
\<close>

theorem twoTone_copies_halves:
  assumes "wired st"
  shows "\<exists>st'. twoTone_loop 0 st = Inr st' \<and> twoTone env st = displayTime env st' \<and>
    (\<forall>i. 0 \<le> i \<and> i < 28 \<longrightarrow>
      segs (strip st') (nat i + 3) =
        (let src = segs (strip st) (the (if 14 \<le> i then firstSeg st else secondSeg st))
         in (segs (strip st) (nat i + 3))\<lparr>colors0 := colors0 src, mode := mode src,
              speed := speed src, intensity := intensity src, palette := palette src\<rparr>)) \<and>
    (\<forall>n. n < 3 \<longrightarrow> segs (strip st') n = segs (strip st) n)"
proof -
  let ?st' = "st\<lparr>strip := (strip st)\<lparr>segs := copyFrom twoTone_source 0 (segs (strip st))\<rparr>\<rparr>"
  have run: "twoTone_loop 0 st = Inr ?st'"
    using assms by (intro twoTone_loop_eq) simp_all
  have "segs (strip ?st') (nat i + 3) =
        (let src = segs (strip st) (the (if 14 \<le> i then firstSeg st else secondSeg st))
         in (segs (strip st) (nat i + 3))\<lparr>colors0 := colors0 src, mode := mode src,
              speed := speed src, intensity := intensity src, palette := palette src\<rparr>)"
    if "0 \<le> i \<and> i < 28" for i
    using that assms by (auto simp add: copyFrom_def twoTone_source_def copied_def wired_def Let_def)
  moreover have "segs (strip ?st') n = segs (strip st) n" if "n < 3" for n
    using that by (simp add: copyFrom_def)
  moreover have "twoTone env st = displayTime env ?st'"
    by (simp add: twoTone_def run)
  ultimately show ?thesis
    using run by blast
qed

theorem twoTone_copies_halves_witness:
  "wired example_wired \<and> (0::int) \<le> 20 \<and> (20::int) < 28 \<and> (0::nat) < 3 \<and>
   mode (segs (strip (projr (twoTone_loop 0 example_wired))) 23) = 1 \<and>
   colors0 (segs (strip (projr (twoTone_loop 0 example_wired))) 23) = 0xFF0000 \<and>
   mode (segs (strip (projr (twoTone_loop 0 example_wired))) 8) = 2 \<and>
   colors0 (segs (strip (projr (twoTone_loop 0 example_wired))) 8) = 0x0000FF \<and>
   segs (strip (projr (twoTone_loop 0 example_wired))) 0 = segs (strip example_wired) 0"
proof -
  from twoTone_copies_halves [OF example_wired_wired, of example_env] obtain st' where
    run: "twoTone_loop 0 example_wired = Inr st'" and
    copy: "\<forall>i. 0 \<le> i \<and> i < 28 \<longrightarrow>
      segs (strip st') (nat i + 3) =
        (let src = segs (strip example_wired)
            (the (if 14 \<le> i then firstSeg example_wired else secondSeg example_wired))
         in (segs (strip example_wired) (nat i + 3))\<lparr>colors0 := colors0 src, mode := mode src,
              speed := speed src, intensity := intensity src, palette := palette src\<rparr>)" and
    keep: "\<forall>n. n < 3 \<longrightarrow> segs (strip st') n = segs (strip example_wired) n"
    by blast
  from copy [rule_format, of 20] copy [rule_format, of 5] keep [rule_format, of 0]
  show ?thesis
    by (simp add: run example_wired_wired) (simp add: example_wired_def example_strip_def)
qed

subsection \<open>The rate limit of the sensor\<close>

lemma unat_millis_diff:
  "t1 \<le> t2 \<Longrightarrow> unat (of_nat t2 - of_nat t1 :: 32 word) \<le> t2 - t1"
proof -
  assume le: "t1 \<le> t2"
  then have "(of_nat t2 - of_nat t1 :: 32 word) = of_nat (t2 - t1)"
    by simp
  then show ?thesis
    by (simp add: unat_of_nat)
qed

lemma readDue_unat:
  "readDue env st \<longleftrightarrow> 10000 < unat (millis_test env - lastDHT11TimeRead st)"
  by (simp add: readDue_def dht11ReadingDelay_def word_less_nat_alt)

lemma readDue_elapsed:
  assumes "readDue (env_of_poll c) st" "lastDHT11TimeRead st = of_nat t" "t \<le> fst c"
  shows "t + 10000 < fst c"
proof -
  obtain a b x y where c: "c = (a, b, x, y)" by (cases c)
  from assms have "10000 < unat (of_nat a - of_nat t :: 32 word)"
    by (simp add: readDue_unat env_of_poll_def c)
  moreover have "unat (of_nat a - of_nat t :: 32 word) \<le> a - t"
    using assms(3) by (intro unat_millis_diff) (simp add: c)
  ultimately show ?thesis by (simp add: c)
qed

lemma sensorReads_spaced:
  "lastDHT11TimeRead st = of_nat t \<Longrightarrow> t \<le> t' \<Longrightarrow> chronological t' cs \<Longrightarrow>
   spaced t (sensorReads cs st)"
proof (induction cs arbitrary: st t t')
  case Nil
  then show ?case by simp
next
  case (Cons c cs)
  from Cons.prems have tc: "t \<le> fst c" and cc: "fst c \<le> fst (snd c)"
    and rest: "chronological (fst (snd c)) cs"
    by simp_all
  show ?case
  proof (cases "readDue (env_of_poll c) st")
    case True
    then have "t + 10000 < fst c"
      using Cons.prems(1) tc by (rule readDue_elapsed)
    moreover have "lastDHT11TimeRead (readTempAndHumid (env_of_poll c) st) = of_nat (fst (snd c))"
      using True by (cases c) (simp add: readTempAndHumid_def env_of_poll_def)
    then have "spaced (fst (snd c)) (sensorReads cs (readTempAndHumid (env_of_poll c) st))"
      using rest by (intro Cons.IH [where t' = "fst (snd c)"]) simp_all
    ultimately show ?thesis
      using True by simp
  next
    case False
    then have "readTempAndHumid (env_of_poll c) st = st"
      by (simp add: readTempAndHumid_def)
    moreover have "spaced t (sensorReads cs st)"
      using Cons.prems(1) rest tc cc by (intro Cons.IH [where t' = "fst (snd c)"]) simp_all
    ultimately show ?thesis
      using False by simp
  qed
qed

text \<open>
  C3, as amended. A call of \<^verbatim>\<open>readTempAndHumid\<close> whose \<^verbatim>\<open>millis()\<close> is at most 10000 ms
  past \<^verbatim>\<open>lastDHT11TimeRead\<close> (the difference taken modulo \<open>2 ^ 32\<close>) changes nothing: the
  cached temperature and humidity stay. A call more than 10000 ms past it reads the sensor
  and stamps the time. Hence, in any sequence of calls in the order of time that starts
  when \<^verbatim>\<open>lastDHT11TimeRead\<close> holds the time \<open>t\<close>, every call that reads the sensor is made more
  than 10000 ms after the stamp of the read before it (after \<open>t\<close> for the first).
\<close>

theorem readTempAndHumid_gate:
  "(unat (millis_test env - lastDHT11TimeRead st) \<le> 10000 \<longrightarrow>
      readTempAndHumid env st = st) \<and>
   (10000 < unat (millis_test env - lastDHT11TimeRead st) \<longrightarrow>
      readTempAndHumid env st =
        st\<lparr>lastDHT11TimeRead := millis_stamp env, currentTemp := readTemperature env,
           currentHumid := readHumidity env\<rparr>) \<and>
   (\<forall>t cs. lastDHT11TimeRead st = of_nat t \<and> chronological t cs \<longrightarrow>
      spaced t (sensorReads cs st))"
proof (intro conjI impI allI)
  assume "unat (millis_test env - lastDHT11TimeRead st) \<le> 10000"
  then show "readTempAndHumid env st = st"
    by (simp add: readTempAndHumid_def readDue_unat)
next
  assume "10000 < unat (millis_test env - lastDHT11TimeRead st)"
  then show "readTempAndHumid env st =
      st\<lparr>lastDHT11TimeRead := millis_stamp env, currentTemp := readTemperature env,
         currentHumid := readHumidity env\<rparr>"
    by (simp add: readTempAndHumid_def readDue_unat)
next
  fix t cs
  assume "lastDHT11TimeRead st = of_nat t \<and> chronological t cs"
  then show "spaced t (sensorReads cs st)"
    using sensorReads_spaced [of st t t cs] by simp
qed

theorem readTempAndHumid_gate_witness:
  "unat (millis_test (env_of_poll (9500, 9500, 21, 40)) - lastDHT11TimeRead constructed) \<le> 10000 \<and>
   readTempAndHumid (env_of_poll (9500, 9500, 21, 40)) constructed = constructed \<and>
   10000 < unat (millis_test (env_of_poll (10001, 10002, 22, 41)) - lastDHT11TimeRead constructed) \<and>
   readTempAndHumid (env_of_poll (10001, 10002, 22, 41)) constructed =
     constructed\<lparr>lastDHT11TimeRead := 10002, currentTemp := 22, currentHumid := 41\<rparr> \<and>
   lastDHT11TimeRead constructed = of_nat 0 \<and> chronological 0 example_polls \<and>
   sensorReads example_polls constructed = [(10001, 10002), (20003, 20004)] \<and>
   spaced 0 (sensorReads example_polls constructed)"
proof -
  have a: "unat (millis_test (env_of_poll (9500, 9500, 21, 40)) - lastDHT11TimeRead constructed) \<le> 10000"
    by (simp add: env_of_poll_def constructed_def)
  have b: "10000 < unat (millis_test (env_of_poll (10001, 10002, 22, 41)) - lastDHT11TimeRead constructed)"
    by (simp add: env_of_poll_def constructed_def)
  have c: "lastDHT11TimeRead constructed = of_nat 0 \<and> chronological 0 example_polls"
    by (simp add: constructed_def example_polls_def)
  have d: "sensorReads example_polls constructed = [(10001, 10002), (20003, 20004)]"
    by (simp add: example_polls_def constructed_def readDue_unat readTempAndHumid_def
        env_of_poll_def)
  show ?thesis
    using readTempAndHumid_gate [of "env_of_poll (9500, 9500, 21, 40)" constructed]
      readTempAndHumid_gate [of "env_of_poll (10001, 10002, 22, 41)" constructed] a b c d
    by (simp add: env_of_poll_def)
qed

text \<open>
  C3 as stated fails when exactly 10000 ms have passed, since the test is a strict \<^verbatim>\<open>>\<close>. The
  call at 10001 ms reads the sensor (22 degrees) and stamps 10001; the next call, at
  20001 ms, comes 10000 ms after that read and keeps the cached 22 degrees although the
  sensor would return 25.
\<close>

theorem readTempAndHumid_exact_interval_counterexample:
  "readTempAndHumid (env_of_poll (10001, 10001, 22, 41)) constructed =
     constructed\<lparr>lastDHT11TimeRead := 10001, currentTemp := 22, currentHumid := 41\<rparr> \<and>
   unat (millis_test (env_of_poll (20001, 20001, 25, 45)) -
         lastDHT11TimeRead (readTempAndHumid (env_of_poll (10001, 10001, 22, 41)) constructed))
     = 10000 \<and>
   readTemperature (env_of_poll (20001, 20001, 25, 45)) = 25 \<and>
   readTempAndHumid (env_of_poll (20001, 20001, 25, 45))
       (readTempAndHumid (env_of_poll (10001, 10001, 22, 41)) constructed) =
     readTempAndHumid (env_of_poll (10001, 10001, 22, 41)) constructed \<and>
   currentTemp (readTempAndHumid (env_of_poll (20001, 20001, 25, 45))
       (readTempAndHumid (env_of_poll (10001, 10001, 22, 41)) constructed)) = 22"
  by (simp add: constructed_def readDue_unat readTempAndHumid_def env_of_poll_def)

subsection \<open>Re-wiring on a configuration update\<close>

lemma getSegments_loop_eq:
  "0 \<le> i \<Longrightarrow> n \<le> 28 \<Longrightarrow>
   getSegments_loop n i st =
     Inr (st\<lparr>segments := (\<lambda>k. if i \<le> int k \<and> int k < n then Some (k + 3) else segments st k)\<rparr>)"
proof (induction n i st rule: getSegments_loop.induct)
  case (1 n i st)
  show ?case
  proof (cases "i < n")
    case False
    then have "(\<lambda>k. if i \<le> int k \<and> int k < n then Some (k + 3) else segments st k) = segments st"
      by (auto simp add: fun_eq_iff)
    with False show ?thesis
      by (simp add: getSegments_loop.simps [of n i])
  next
    case True
    define st1 where "st1 = st\<lparr>segments := (segments st)(nat i := Some (nat (i + NUM_FIRST_LEDS)))\<rparr>"
    have inb: "0 \<le> i \<and> i < NUM_OF_SEGMENTS"
      using True "1.prems" by (simp add: NUM_OF_SEGMENTS_def)
    have "getSegments_loop n (i + 1) st1 =
      Inr (st1\<lparr>segments := (\<lambda>k. if i + 1 \<le> int k \<and> int k < n then Some (k + 3) else segments st1 k)\<rparr>)"
      unfolding st1_def using True inb "1.prems" by (intro "1.IH") simp_all
    moreover have "(\<lambda>k. if i + 1 \<le> int k \<and> int k < n then Some (k + 3) else segments st1 k)
      = (\<lambda>k. if i \<le> int k \<and> int k < n then Some (k + 3) else segments st k)"
      using True "1.prems" by (auto simp add: fun_eq_iff st1_def NUM_FIRST_LEDS_def nat_add_distrib)
    moreover have "getSegments_loop n i st = getSegments_loop n (i + 1) st1"
      using True inb by (simp add: getSegments_loop.simps [of n i] st1_def)
    ultimately show ?thesis
      by (simp add: st1_def)
  qed
qed

lemma wireSegmented_eq:
  "wireSegmented st =
    Inr (st\<lparr>strip := setSegments ADDR_LEDS_PER_SEG NUM_OF_SEGMENTS (strip st),
           firstSeg := Some 0, secondSeg := Some 1, thirdSeg := Some 2,
           segments := (\<lambda>k. if k < 28 then Some (k + 3) else segments st k)\<rparr>)"
proof -
  have "(\<lambda>k. if 0 \<le> int k \<and> int k < 28 then Some (k + 3) else segments st k)
    = (\<lambda>k. if k < 28 then Some (k + 3) else segments st k)"
    by (simp add: fun_eq_iff)
  then show ?thesis
    by (simp add: wireSegmented_def getSegments_def getSegments_loop_eq NUM_OF_SEGMENTS_def
        cong: if_cong)
qed

lemma wireSegmented_wired:
  "\<exists>st'. wireSegmented st = Inr st' \<and> wired st'"
  by (simp add: wireSegmented_eq wired_def)

lemma readFields_last:
  "readFields topObj st0 = (c, st) \<Longrightarrow>
    lastTwoToneMode st = lastTwoToneMode st0 \<and> lastInSeriesMode st = lastInSeriesMode st0 \<and>
    lastTempHumidMode st = lastTempHumidMode st0"
  by (auto simp add: readFields_def Let_def split: prod.splits)

lemma readFields_strip:
  "readFields topObj st0 = (c, st) \<Longrightarrow> strip st = strip st0"
  by (auto simp add: readFields_def Let_def split: prod.splits)

lemma readFields_config_of:
  "readFields (Some (config_of a b c)) st =
    (True, st\<lparr>inTwoToneMode := a, inSeriesMode := b, inSecsMinsMode := False,
       inManualMode := False, digit0Value := 0, digit1Value := 0, digit2Value := 0,
       digit3Value := 0, inTempHumidMode := c\<rparr>)"
  by (simp add: readFields_def config_of_def element_def getJsonValue_def)

lemma readFields_modes_off:
  "readFields (Some (config_of a b c)) modes_off =
    (True, modes_off\<lparr>inTwoToneMode := a, inSeriesMode := b, inTempHumidMode := c\<rparr>)"
  by (simp add: readFields_config_of) (simp add: modes_off_def constructed_def)

text \<open>
  C4, as amended. On entry into series mode (the flag read is set and was not set at the
  last update) \<^verbatim>\<open>readFromConfig\<close> resets the host's ranges and then defines one single
  range, the host's segment 0, from LED 3 up to LED 87: the 28 * 3 = 84 LEDs after the
  first three. No other range is defined after the reset, and the segment pointers are not
  touched.
\<close>

theorem series_entry_wires_flat:
  assumes "readFields topObj st0 = (c, st)" "inSeriesMode st" "\<not> lastInSeriesMode st0"
  shows "\<exists>st'. readFromConfig topObj st0 = Inr (c, st') \<and>
    strip st' = setSegment 0 3 87 (resetSegments (strip st0)) \<and>
    start (segs (strip st') 0) = NUM_FIRST_LEDS \<and>
    stop (segs (strip st') 0) = NUM_FIRST_LEDS + NUM_OF_SEGMENTS * ADDR_LEDS_PER_SEG \<and>
    stop (segs (strip st') 0) - start (segs (strip st') 0) = 84 \<and>
    (\<forall>n. n \<noteq> 0 \<longrightarrow> segs (strip st') n = segs (resetSegments (strip st0)) n) \<and>
    pixels (strip st') = pixels (strip st0) \<and>
    firstSeg st' = firstSeg st0 \<and> secondSeg st' = secondSeg st0 \<and>
    thirdSeg st' = thirdSeg st0 \<and> segments st' = segments st0"
proof -
  have last: "lastInSeriesMode st = lastInSeriesMode st0"
    using readFields_last [OF assms(1)] by simp
  have ptr: "firstSeg st = firstSeg st0 \<and> secondSeg st = secondSeg st0 \<and>
    thirdSeg st = thirdSeg st0 \<and> segments st = segments st0"
    using assms(1) by (auto simp add: readFields_def Let_def split: prod.splits)
  have "readFromConfig topObj st0 = Inr (c, rememberModes (wireFlat st))"
    using assms last by (simp add: readFromConfig_def)
  moreover have "strip (rememberModes (wireFlat st)) = setSegment 0 3 87 (resetSegments (strip st0))"
    using readFields_strip [OF assms(1)]
    by (simp add: rememberModes_def wireFlat_def NUM_FIRST_LEDS_def NUM_OF_SEGMENTS_def)
  ultimately show ?thesis
    using ptr
    by (simp add: rememberModes_def wireFlat_def setSegment_def upd_seg_def resetSegments_def
        NUM_FIRST_LEDS_def NUM_OF_SEGMENTS_def ADDR_LEDS_PER_SEG_def)
qed

theorem series_entry_wires_flat_witness:
  "readFields (Some (config_of True True False)) constructed =
     (True, constructed\<lparr>inSeriesMode := True\<rparr>) \<and>
   inSeriesMode (constructed\<lparr>inSeriesMode := True\<rparr>) \<and> \<not> lastInSeriesMode constructed \<and>
   start (segs (strip (snd (projr (readFromConfig (Some (config_of True True False)) constructed)))) 0) = 3 \<and>
   stop (segs (strip (snd (projr (readFromConfig (Some (config_of True True False)) constructed)))) 0) = 87"
proof -
  have f: "readFields (Some (config_of True True False)) constructed =
     (True, constructed\<lparr>inSeriesMode := True\<rparr>)"
    by (simp add: readFields_config_of) (simp add: constructed_def)
  have l: "\<not> lastInSeriesMode constructed"
    by (simp add: constructed_def)
  from series_entry_wires_flat [OF f _ l] obtain st' where
    "readFromConfig (Some (config_of True True False)) constructed = Inr (True, st')"
    "start (segs (strip st') 0) = NUM_FIRST_LEDS"
    "stop (segs (strip st') 0) = NUM_FIRST_LEDS + NUM_OF_SEGMENTS * ADDR_LEDS_PER_SEG"
    by auto
  then show ?thesis
    using f l by (simp add: NUM_FIRST_LEDS_def NUM_OF_SEGMENTS_def ADDR_LEDS_PER_SEG_def)
qed

text \<open>
  C4 as stated fails: after the entry into series mode from the constructed state the
  host's segment 0 is the range 3..87, not the one-LED range of the first colour source,
  and the segments 1, 2 and 3 hold no LED.
\<close>

theorem series_entry_no_colour_ranges_counterexample:
  "readFromConfig (Some (config_of True True False)) constructed =
     Inr (True, rememberModes (wireFlat (constructed\<lparr>inSeriesMode := True\<rparr>))) \<and>
   start (segs (strip (rememberModes (wireFlat (constructed\<lparr>inSeriesMode := True\<rparr>)))) 0) = 3 \<and>
   stop (segs (strip (rememberModes (wireFlat (constructed\<lparr>inSeriesMode := True\<rparr>)))) 0) = 87 \<and>
   start (segs (strip (rememberModes (wireFlat (constructed\<lparr>inSeriesMode := True\<rparr>)))) 1) = 0 \<and>
   stop (segs (strip (rememberModes (wireFlat (constructed\<lparr>inSeriesMode := True\<rparr>)))) 1) = 0 \<and>
   start (segs (strip (rememberModes (wireFlat (constructed\<lparr>inSeriesMode := True\<rparr>)))) 2) = 0 \<and>
   stop (segs (strip (rememberModes (wireFlat (constructed\<lparr>inSeriesMode := True\<rparr>)))) 2) = 0 \<and>
   start (segs (strip (rememberModes (wireFlat (constructed\<lparr>inSeriesMode := True\<rparr>)))) 3) = 0 \<and>
   stop (segs (strip (rememberModes (wireFlat (constructed\<lparr>inSeriesMode := True\<rparr>)))) 3) = 0"
proof -
  have f: "readFields (Some (config_of True True False)) constructed =
     (True, constructed\<lparr>inSeriesMode := True\<rparr>)"
    by (simp add: readFields_config_of) (simp add: constructed_def)
  have "readFromConfig (Some (config_of True True False)) constructed =
     Inr (True, rememberModes (wireFlat (constructed\<lparr>inSeriesMode := True\<rparr>)))"
    by (simp add: readFromConfig_def f) (simp add: constructed_def)
  then show ?thesis
    by (simp add: rememberModes_def wireFlat_def setSegment_def upd_seg_def resetSegments_def
        NUM_FIRST_LEDS_def NUM_OF_SEGMENTS_def constructed_def blank_strip_def blank_segment_def)
qed

text \<open>
  The branches of \<^verbatim>\<open>readFromConfig\<close> as the code has them, with \<open>st\<close> the state after
  the nine fields were read: the entry into series mode is tested first and performs the
  flat wiring; only otherwise does an entry into two-tone or temperature mode perform the
  segmented wiring (\<^verbatim>\<open>setSegments\<close>, then \<^verbatim>\<open>getSegments\<close>), which succeeds and sets the
  pointers; otherwise nothing is wired.
\<close>

theorem readFromConfig_rewiring:
  assumes "readFields topObj st0 = (c, st)"
  shows "(inSeriesMode st \<and> \<not> lastInSeriesMode st0 \<longrightarrow>
      readFromConfig topObj st0 = Inr (c, rememberModes (wireFlat st))) \<and>
    (\<not> (inSeriesMode st \<and> \<not> lastInSeriesMode st0) \<and>
     (inTwoToneMode st \<and> \<not> lastTwoToneMode st0 \<or> inTempHumidMode st \<and> \<not> lastTempHumidMode st0) \<longrightarrow>
      (\<exists>st'. wireSegmented st = Inr st' \<and> wired st' \<and>
         readFromConfig topObj st0 = Inr (c, rememberModes st'))) \<and>
    (\<not> (inSeriesMode st \<and> \<not> lastInSeriesMode st0) \<and>
     \<not> (inTwoToneMode st \<and> \<not> lastTwoToneMode st0) \<and>
     \<not> (inTempHumidMode st \<and> \<not> lastTempHumidMode st0) \<longrightarrow>
      readFromConfig topObj st0 = Inr (c, rememberModes st))"
proof -
  note last = readFields_last [OF assms]
  show ?thesis
  proof (intro conjI impI)
    assume "inSeriesMode st \<and> \<not> lastInSeriesMode st0"
    then show "readFromConfig topObj st0 = Inr (c, rememberModes (wireFlat st))"
      using last by (auto simp add: readFromConfig_def assms)
  next
    assume a: "\<not> (inSeriesMode st \<and> \<not> lastInSeriesMode st0) \<and>
     (inTwoToneMode st \<and> \<not> lastTwoToneMode st0 \<or> inTempHumidMode st \<and> \<not> lastTempHumidMode st0)"
    obtain st' where w: "wireSegmented st = Inr st'" "wired st'"
      using wireSegmented_wired by blast
    have "readFromConfig topObj st0 = Inr (c, rememberModes st')"
      using a last w(1) by (auto simp add: readFromConfig_def assms)
    with w show "\<exists>st'. wireSegmented st = Inr st' \<and> wired st' \<and>
         readFromConfig topObj st0 = Inr (c, rememberModes st')"
      by blast
  next
    assume "\<not> (inSeriesMode st \<and> \<not> lastInSeriesMode st0) \<and>
     \<not> (inTwoToneMode st \<and> \<not> lastTwoToneMode st0) \<and>
     \<not> (inTempHumidMode st \<and> \<not> lastTempHumidMode st0)"
    then show "readFromConfig topObj st0 = Inr (c, rememberModes st)"
      using last by (auto simp add: readFromConfig_def assms)
  qed
qed

theorem readFromConfig_rewiring_witness:
  "readFields (Some (config_of False True False)) modes_off =
     (True, modes_off\<lparr>inTwoToneMode := False, inSeriesMode := True, inTempHumidMode := False\<rparr>) \<and>
   \<not> lastInSeriesMode modes_off \<and>
   readFromConfig (Some (config_of False True False)) modes_off =
     Inr (True, rememberModes (wireFlat
       (modes_off\<lparr>inTwoToneMode := False, inSeriesMode := True, inTempHumidMode := False\<rparr>))) \<and>
   readFields (Some (config_of True False False)) modes_off =
     (True, modes_off\<lparr>inTwoToneMode := True, inSeriesMode := False, inTempHumidMode := False\<rparr>) \<and>
   \<not> lastTwoToneMode modes_off \<and>
   wired (snd (projr (readFromConfig (Some (config_of True False False)) modes_off))) \<and>
   readFields (Some (config_of False False False)) modes_off =
     (True, modes_off\<lparr>inTwoToneMode := False, inSeriesMode := False, inTempHumidMode := False\<rparr>) \<and>
   readFromConfig (Some (config_of False False False)) modes_off =
     Inr (True, rememberModes
       (modes_off\<lparr>inTwoToneMode := False, inSeriesMode := False, inTempHumidMode := False\<rparr>))"
proof -
  have l: "\<not> lastInSeriesMode modes_off \<and> \<not> lastTwoToneMode modes_off \<and>
      \<not> lastTempHumidMode modes_off"
    by (simp add: modes_off_def constructed_def)
  from readFromConfig_rewiring [OF readFields_modes_off [of True False False]] l
  obtain st' where "wired st'"
    "readFromConfig (Some (config_of True False False)) modes_off = Inr (True, rememberModes st')"
    by auto
  then have "wired (snd (projr (readFromConfig (Some (config_of True False False)) modes_off)))"
    by (simp add: rememberModes_def wired_def)
  then show ?thesis
    using readFromConfig_rewiring [OF readFields_modes_off [of False True False]]
      readFromConfig_rewiring [OF readFields_modes_off [of False False False]] l
    by (simp add: readFields_modes_off)
qed

lemma setup_usermod_wired:
  "inTwoToneMode st \<or> inTempHumidMode st \<Longrightarrow> \<exists>st'. setup_usermod env st = Inr st' \<and> wired st'"
  using wireSegmented_eq [of st]
  by (simp add: setup_usermod_def wireSegmented_def initDHT11Sensor_def wired_def)

text \<open>
  C5. The claim is that enabling two-tone or temperature mode always performs the
  segmented wiring, whatever else the update changes. The code misses the update that
  enables two-tone mode together with series mode: \<^verbatim>\<open>readFromConfig\<close> takes its first
  branch and performs the flat wiring only. From the constructed display with two-tone
  mode disabled, that update leaves two-tone mode on, the pointers never set and the
  host's segment 3 without LEDs, and the next \<^verbatim>\<open>loop\<close> uses an unset pointer. For the same
  flags \<^verbatim>\<open>setup\<close> performs the segmented wiring, as \<^verbatim>\<open>readFromConfig\<close> does when
  two-tone mode is enabled alone.
\<close>

theorem both_modes_enabled_unwired:
  "readFromConfig (Some (config_of False False False)) constructed = Inr (True, modes_off) \<and>
   \<not> lastTwoToneMode modes_off \<and> \<not> lastInSeriesMode modes_off \<and>
   cfg_TwoTone (config_of True True False) = Some True \<and>
   cfg_InSeries (config_of True True False) = Some True \<and>
   readFromConfig (Some (config_of True True False)) modes_off = Inr (True, both_enabled) \<and>
   inTwoToneMode both_enabled \<and> inSeriesMode both_enabled \<and>
   firstSeg both_enabled = None \<and> secondSeg both_enabled = None \<and>
   segments both_enabled 0 = None \<and>
   start (segs (strip both_enabled) 0) = 3 \<and> stop (segs (strip both_enabled) 0) = 87 \<and>
   start (segs (strip both_enabled) 3) = 0 \<and> stop (segs (strip both_enabled) 3) = 0 \<and>
   loop example_env both_enabled = Inl BadPointer \<and>
   firstSeg (projr (setup_usermod example_env
     (modes_off\<lparr>inTwoToneMode := True, inSeriesMode := True\<rparr>))) = Some 0 \<and>
   secondSeg (projr (setup_usermod example_env
     (modes_off\<lparr>inTwoToneMode := True, inSeriesMode := True\<rparr>))) = Some 1 \<and>
   segments (projr (setup_usermod example_env
     (modes_off\<lparr>inTwoToneMode := True, inSeriesMode := True\<rparr>))) 0 = Some 3 \<and>
   firstSeg (snd (projr (readFromConfig (Some (config_of True False False)) modes_off)))
     = Some 0 \<and>
   secondSeg (snd (projr (readFromConfig (Some (config_of True False False)) modes_off)))
     = Some 1 \<and>
   segments (snd (projr (readFromConfig (Some (config_of True False False)) modes_off))) 0
     = Some 3"
proof -
  have f: "readFields (Some (config_of False False False)) constructed =
      (True, constructed\<lparr>inTwoToneMode := False\<rparr>)"
    by (simp add: readFields_config_of) (simp add: constructed_def)
  have a: "readFromConfig (Some (config_of False False False)) constructed = Inr (True, modes_off)"
    by (simp add: readFromConfig_def f) (simp add: modes_off_def constructed_def rememberModes_def)
  have b: "readFromConfig (Some (config_of True True False)) modes_off = Inr (True, both_enabled)"
    by (simp add: readFromConfig_def readFields_modes_off both_enabled_def)
      (simp add: modes_off_def constructed_def)
  have c: "inTwoToneMode both_enabled \<and> firstSeg both_enabled = None \<and>
      secondSeg both_enabled = None \<and> segments both_enabled 0 = None"
    by (simp add: both_enabled_def rememberModes_def wireFlat_def modes_off_def constructed_def)
  then have d: "loop example_env both_enabled = Inl BadPointer"
    by (simp add: loop_def twoTone_def twoTone_loop.simps [of 0] segments_at_def deref_def
        NUM_OF_SEGMENTS_def)
  have "wired (projr (setup_usermod example_env
     (modes_off\<lparr>inTwoToneMode := True, inSeriesMode := True\<rparr>)))"
    using setup_usermod_wired [of "modes_off\<lparr>inTwoToneMode := True, inSeriesMode := True\<rparr>"
        example_env]
    by auto
  then have e: "firstSeg (projr (setup_usermod example_env
       (modes_off\<lparr>inTwoToneMode := True, inSeriesMode := True\<rparr>))) = Some 0 \<and>
     secondSeg (projr (setup_usermod example_env
       (modes_off\<lparr>inTwoToneMode := True, inSeriesMode := True\<rparr>))) = Some 1 \<and>
     segments (projr (setup_usermod example_env
       (modes_off\<lparr>inTwoToneMode := True, inSeriesMode := True\<rparr>))) 0 = Some 3"
    by (simp add: wired_def)
  have "wired (snd (projr (readFromConfig (Some (config_of True False False)) modes_off)))"
    by (simp add: readFromConfig_def readFields_modes_off wireSegmented_eq rememberModes_def
        wired_def)
      (simp add: modes_off_def constructed_def wireSegmented_eq rememberModes_def wired_def)
  then have g: "firstSeg (snd (projr (readFromConfig (Some (config_of True False False)) modes_off)))
       = Some 0 \<and>
     secondSeg (snd (projr (readFromConfig (Some (config_of True False False)) modes_off)))
       = Some 1 \<and>
     segments (snd (projr (readFromConfig (Some (config_of True False False)) modes_off))) 0
       = Some 3"
    by (simp add: wired_def)
  have h: "\<not> lastTwoToneMode modes_off \<and> \<not> lastInSeriesMode modes_off \<and>
     cfg_TwoTone (config_of True True False) = Some True \<and>
     cfg_InSeries (config_of True True False) = Some True \<and>
     inSeriesMode both_enabled \<and>
     start (segs (strip both_enabled) 0) = 3 \<and> stop (segs (strip both_enabled) 0) = 87 \<and>
     start (segs (strip both_enabled) 3) = 0 \<and> stop (segs (strip both_enabled) 3) = 0"
    by (simp add: config_of_def both_enabled_def rememberModes_def wireFlat_def modes_off_def
        constructed_def setSegment_def upd_seg_def resetSegments_def blank_strip_def
        blank_segment_def NUM_FIRST_LEDS_def NUM_OF_SEGMENTS_def)
  from a b c d e g h show ?thesis
    by blast
qed

subsection \<open>Digit values outside 0..9\<close>

lemma setDigit_out_of_range:
  "v < 0 \<or> 9 < v \<Longrightarrow> setDigit d v st = Inl OutOfBounds"
  by (auto simp add: setDigit_def setDigit_loop.simps [of _ v 0] DIGITS_at_def NUM_DIGITS_def)

lemma setDigit_segmented_ok:
  assumes "wired st" "inTwoToneMode st \<or> inTempHumidMode st" "0 \<le> d" "d \<le> 3" "0 \<le> v" "v \<le> 9"
  shows "\<exists>s. setDigit d v st = Inr (st\<lparr>strip := s\<rparr>)"
proof -
  obtain offs where offs: "setDigit_offsets v 0 = Inr offs" and range: "set offs \<subseteq> {0..6}"
    using assms(5,6) by (rule setDigit_offsets_spec)
  have "\<forall>x \<in> set offs. 0 \<le> 28 - 7 * (d + 1) + x \<and> 28 - 7 * (d + 1) + x < 28"
    using range assms(3,4) by auto
  then have "blankAll (28 - 7 * (d + 1)) offs st =
     Inr (st\<lparr>strip := (strip st)\<lparr>segs := (\<lambda>n.
        if int n - 3 - (28 - 7 * (d + 1)) \<in> set offs \<and> 3 \<le> n
        then turnedOff (segs (strip st) n) else segs (strip st) n)\<rparr>\<rparr>)"
    using assms(1,2) by (intro blankAll_segmented)
  then show ?thesis
    unfolding setDigit_as_blankAll [OF offs] by (rule exI)
qed

lemma c_div_mod_negative:
  assumes "t < 0"
  shows "c_div t 10 < 0 \<or> (c_div t 10 = 0 \<and> c_mod t 10 < 0)"
proof (cases "t \<le> -10")
  case True
  then have "1 \<le> \<bar>t\<bar> div 10"
    by (simp add: zdiv_eq_0_iff flip: linorder_not_less)
  with assms show ?thesis
    by (simp add: c_div_def)
next
  case False
  with assms have "\<bar>t\<bar> div 10 = 0"
    by simp
  with assms show ?thesis
    by (simp add: c_div_def c_mod_def)
qed

lemma wired_readTempAndHumid: "wired (readTempAndHumid env st) = wired st"
  by (simp add: readTempAndHumid_def wired_def)

lemma negative_temperature_out_of_bounds:
  assumes "wired st" "inTempHumidMode st" "currentTemp (readTempAndHumid env st) < 0"
  shows "displayTempAndHumid env st = Inl OutOfBounds"
proof -
  let ?st0 = "readTempAndHumid env st"
  let ?t = "currentTemp ?st0"
  have w0: "wired ?st0" using assms(1) by (simp add: wired_readTempAndHumid)
  have th0: "inTempHumidMode ?st0" using assms(2) by (simp add: readTempAndHumid_def)
  obtain s1 where c: "setTempHumidColors ?st0 = Inr (?st0\<lparr>strip := s1\<rparr>)"
    using setTempHumidColors_loop_eq [OF w0, of 0] by (simp add: setTempHumidColors_def)
  let ?st1 = "?st0\<lparr>strip := s1\<rparr>"
  from c_div_mod_negative [OF assms(3)] show ?thesis
  proof
    assume "c_div ?t 10 < 0"
    then have "setDigit 0 (c_div (currentTemp ?st1) 10) ?st1 = Inl OutOfBounds"
      by (intro setDigit_out_of_range) simp
    then show ?thesis
      by (simp add: displayTempAndHumid_def c)
  next
    assume a: "c_div ?t 10 = 0 \<and> c_mod ?t 10 < 0"
    obtain s2 where d0: "setDigit 0 0 ?st1 = Inr (?st1\<lparr>strip := s2\<rparr>)"
      using setDigit_segmented_ok [of ?st1 0 0] w0 th0 by auto
    have "setDigit 1 (c_mod (currentTemp (?st1\<lparr>strip := s2\<rparr>)) 10) (?st1\<lparr>strip := s2\<rparr>)
        = Inl OutOfBounds"
      using a by (intro setDigit_out_of_range) simp
    then show ?thesis
      using a d0 by (simp add: displayTempAndHumid_def c)
  qed
qed

lemma manual_digit_out_of_bounds:
  assumes "wired st" "inManualMode st" "digit0Value st < 0 \<or> 9 < digit0Value st"
  shows "twoTone env st = Inl OutOfBounds"
proof -
  obtain s1 where c: "twoTone_loop 0 st = Inr (st\<lparr>strip := s1\<rparr>)"
    using twoTone_loop_eq [OF assms(1), of 0] by simp
  have "setDigit 0 (digit0Value (st\<lparr>strip := s1\<rparr>)) (st\<lparr>strip := s1\<rparr>) = Inl OutOfBounds"
    using assms(3) by (intro setDigit_out_of_range) simp
  then show ?thesis
    using assms(2) by (simp add: twoTone_def c displayTime_def)
qed

lemma example_tempHumid_wired: "wired example_tempHumid"
  by (simp add: wired_def example_tempHumid_def example_wired_def)

lemma example_manual_wired: "wired example_manual"
  by (simp add: wired_def example_manual_def example_wired_def)

text \<open>
  C8. The claim is that no value outside 0..9 reaches the glyph table. The code passes
  such values: in temperature mode a sensor reading of -3 gives the digits 0 and -3, and
  \<^verbatim>\<open>setDigit(1, -3)\<close> reads \<^verbatim>\<open>DIGITS[-3][0]\<close>; in manual mode a configured first digit of
  12 makes \<^verbatim>\<open>setDigit(0, 12)\<close> read \<^verbatim>\<open>DIGITS[12][0]\<close>. Both frames end in an access
  out of the bounds of the table.
\<close>

theorem out_of_range_digit_indexes_table:
  "currentTemp (readTempAndHumid (example_env\<lparr>readTemperature := -3\<rparr>) example_tempHumid) = -3 \<and>
   c_div (-3) 10 = 0 \<and> c_mod (-3) 10 = -3 \<and>
   DIGITS_at (-3) 0 = Inl OutOfBounds \<and>
   loop (example_env\<lparr>readTemperature := -3\<rparr>) example_tempHumid = Inl OutOfBounds \<and>
   digit0Value example_manual = 12 \<and>
   DIGITS_at 12 0 = Inl OutOfBounds \<and>
   loop example_env example_manual = Inl OutOfBounds"
proof -
  let ?env = "example_env\<lparr>readTemperature := -3\<rparr>"
  have t: "currentTemp (readTempAndHumid ?env example_tempHumid) = -3"
    by (simp add: readTempAndHumid_def readDue_unat example_env_def example_tempHumid_def
        example_wired_def constructed_def)
  have "displayTempAndHumid ?env example_tempHumid = Inl OutOfBounds"
    using example_tempHumid_wired
    by (rule negative_temperature_out_of_bounds)
      (simp_all add: t, simp add: example_tempHumid_def)
  then have "loop ?env example_tempHumid = Inl OutOfBounds"
    by (simp add: loop_def example_tempHumid_def example_wired_def)
  moreover have "twoTone example_env example_manual = Inl OutOfBounds"
    using example_manual_wired
    by (rule manual_digit_out_of_bounds) (simp_all add: example_manual_def)
  then have "loop example_env example_manual = Inl OutOfBounds"
    by (simp add: loop_def example_manual_def example_wired_def constructed_def)
  ultimately show ?thesis
    using t by (simp add: c_div_def c_mod_def DIGITS_at_def NUM_DIGITS_def example_manual_def)
qed

subsection \<open>Which render path runs\<close>

lemma andThen_Inr_iff: "andThen m f = Inr y \<longleftrightarrow> (\<exists>x. m = Inr x \<and> f x = Inr y)"
  by (cases m) simp_all

lemma same_strip: "\<exists>s. st = st\<lparr>strip := s\<rparr>"
  by (rule exI [of _ "strip st"]) simp

lemma setDigit_body_frame:
  "setDigit_body b x st = Inr st' \<Longrightarrow> \<exists>s. st' = st\<lparr>strip := s\<rparr>"
  using same_strip [of st]
  by (auto simp add: setDigit_body_def andThen_Inr_iff split: if_splits)

lemma setDigit_loop_frame:
  "setDigit_loop b v i st = Inr st' \<Longrightarrow> \<exists>s. st' = st\<lparr>strip := s\<rparr>"
proof (induction b v i st arbitrary: st' rule: setDigit_loop.induct)
  case (1 b v i st)
  note same = same_strip [of st]
  show ?case
  proof (cases "i < NUM_DIGITS")
    case False
    with "1.prems" same show ?thesis
      by (simp add: setDigit_loop.simps [of b v i])
  next
    case True
    show ?thesis
    proof (cases "DIGITS_at v i")
      case (Inl e)
      with True "1.prems" show ?thesis
        by (simp add: setDigit_loop.simps [of b v i])
    next
      case (Inr segIndex)
      show ?thesis
      proof (cases "segIndex = -1")
        case True
        with \<open>i < NUM_DIGITS\<close> Inr "1.prems" same show ?thesis
          by (simp add: setDigit_loop.simps [of b v i])
      next
        case False
        with \<open>i < NUM_DIGITS\<close> Inr "1.prems" obtain st1 where
          body: "setDigit_body b segIndex st = Inr st1"
          and rest: "setDigit_loop b v (i + 1) st1 = Inr st'"
          by (auto simp add: setDigit_loop.simps [of b v i] andThen_Inr_iff)
        from body obtain s1 where "st1 = st\<lparr>strip := s1\<rparr>"
          using setDigit_body_frame by blast
        moreover obtain s where "st' = st1\<lparr>strip := s\<rparr>"
          using "1.IH" [OF \<open>i < NUM_DIGITS\<close> Inr False rest] by blast
        ultimately have "st' = st\<lparr>strip := s\<rparr>"
          by simp
        then show ?thesis ..
      qed
    qed
  qed
qed

lemma setDigit_frame:
  "setDigit d v st = Inr st' \<Longrightarrow> \<exists>s. st' = st\<lparr>strip := s\<rparr>"
  unfolding setDigit_def by (rule setDigit_loop_frame)

lemma four_digits_frame:
  assumes "andThen (setDigit 0 (f0 st) st) (\<lambda>st1.
           andThen (setDigit 1 (f1 st1) st1) (\<lambda>st2.
           andThen (setDigit 2 (f2 st2) st2) (\<lambda>st3.
           setDigit 3 (f3 st3) st3))) = Inr st'"
  shows "\<exists>s. st' = st\<lparr>strip := s\<rparr>"
proof -
  from assms obtain st1 st2 st3 where
    d0: "setDigit 0 (f0 st) st = Inr st1" and d1: "setDigit 1 (f1 st1) st1 = Inr st2" and
    d2: "setDigit 2 (f2 st2) st2 = Inr st3" and d3: "setDigit 3 (f3 st3) st3 = Inr st'"
    by (auto simp add: andThen_Inr_iff)
  obtain s1 where "st1 = st\<lparr>strip := s1\<rparr>"
    using setDigit_frame [OF d0] by blast
  moreover obtain s2 where "st2 = st1\<lparr>strip := s2\<rparr>"
    using setDigit_frame [OF d1] by blast
  moreover obtain s3 where "st3 = st2\<lparr>strip := s3\<rparr>"
    using setDigit_frame [OF d2] by blast
  moreover obtain s4 where "st' = st3\<lparr>strip := s4\<rparr>"
    using setDigit_frame [OF d3] by blast
  ultimately have "st' = st\<lparr>strip := s4\<rparr>"
    by simp
  then show ?thesis ..
qed

lemma displayTime_frame:
  assumes "displayTime env st = Inr st'"
  shows "lastDHT11TimeRead st' = lastDHT11TimeRead st \<and> currentTemp st' = currentTemp st \<and>
    currentHumid st' = currentHumid st"
proof (cases "inManualMode st")
  case True
  with assms have "\<exists>s. st' = st\<lparr>strip := s\<rparr>"
    by (intro four_digits_frame [of digit0Value st digit1Value digit2Value digit3Value])
      (simp add: displayTime_def)
  then show ?thesis by auto
next
  case False
  let ?st = "updateTime env st"
  show ?thesis
  proof (cases "inSecsMinsMode ?st")
    case True
    with False assms have "\<exists>s. st' = ?st\<lparr>strip := s\<rparr>"
      by (intro four_digits_frame [of "\<lambda>x. c_div (currentMin x) 10" ?st
            "\<lambda>x. c_mod (currentMin x) 10" "\<lambda>x. c_div (currentSec x) 10"
            "\<lambda>x. c_mod (currentSec x) 10"])
        (simp add: displayTime_def Let_def)
    then show ?thesis by (auto simp add: updateTime_def)
  next
    case secs: False
    with False assms have "\<exists>s. st' = ?st\<lparr>strip := s\<rparr>"
      by (intro four_digits_frame [of "\<lambda>x. c_div (currentHour x) 10" ?st
            "\<lambda>x. c_mod (currentHour x) 10" "\<lambda>x. c_div (currentMin x) 10"
            "\<lambda>x. c_mod (currentMin x) 10"])
        (simp add: displayTime_def Let_def)
    then show ?thesis by (auto simp add: updateTime_def)
  qed
qed

lemma twoTone_loop_frame:
  "twoTone_loop i st = Inr st' \<Longrightarrow> \<exists>s. st' = st\<lparr>strip := s\<rparr>"
proof (induction i st arbitrary: st' rule: twoTone_loop.induct)
  case (1 i st)
  show ?case
  proof (cases "i < NUM_OF_SEGMENTS")
    case False
    with "1.prems" have "st' = st\<lparr>strip := strip st\<rparr>"
      by (simp add: twoTone_loop.simps [of i])
    then show ?thesis ..
  next
    case True
    with "1.prems" obtain seg1 seg2 where
      seg1: "segments_at st i = Inr seg1"
      and seg2: "deref (if midSegmentIndex \<le> i then firstSeg st else secondSeg st) = Inr seg2"
      and rest: "twoTone_loop (i + 1) (st\<lparr>strip := segCopyProps seg1 seg2 i (strip st)\<rparr>) = Inr st'"
      by (auto simp add: twoTone_loop.simps [of i] andThen_Inr_iff)
    obtain s where "st' = st\<lparr>strip := segCopyProps seg1 seg2 i (strip st)\<rparr>\<lparr>strip := s\<rparr>"
      using "1.IH" [OF True rest] by blast
    then have "st' = st\<lparr>strip := s\<rparr>"
      by simp
    then show ?thesis ..
  qed
qed

lemma twoTone_frame:
  assumes "twoTone env st = Inr st'"
  shows "lastDHT11TimeRead st' = lastDHT11TimeRead st \<and> currentTemp st' = currentTemp st \<and>
    currentHumid st' = currentHumid st"
proof -
  from assms obtain st1 where "twoTone_loop 0 st = Inr st1" "displayTime env st1 = Inr st'"
    by (auto simp add: twoTone_def andThen_Inr_iff)
  moreover from this(1) obtain s where "st1 = st\<lparr>strip := s\<rparr>"
    using twoTone_loop_frame by blast
  ultimately show ?thesis
    using displayTime_frame [of env st1 st'] by simp
qed

text \<open>
  C10. When the two-tone flag and the temperature flag are both set, \<^verbatim>\<open>loop\<close> is the
  two-tone render and nothing of the temperature path runs: whenever the call returns,
  the time stamp of the sensor and the cached temperature and humidity are as before.
  When the two-tone, temperature and series flags are all clear, \<^verbatim>\<open>loop\<close> and
  \<^verbatim>\<open>handleOverlayDraw\<close> leave the state as it is.
\<close>

theorem loop_mode_precedence:
  "(inTwoToneMode st \<and> inTempHumidMode st \<longrightarrow>
      loop env st = twoTone env st \<and>
      (\<forall>st'. loop env st = Inr st' \<longrightarrow>
         lastDHT11TimeRead st' = lastDHT11TimeRead st \<and> currentTemp st' = currentTemp st \<and>
         currentHumid st' = currentHumid st)) \<and>
   (\<not> inTwoToneMode st \<and> \<not> inTempHumidMode st \<and> \<not> inSeriesMode st \<longrightarrow>
      loop env st = Inr st \<and> handleOverlayDraw env st = Inr st)"
proof (intro conjI impI allI)
  assume "inTwoToneMode st \<and> inTempHumidMode st"
  then show "loop env st = twoTone env st"
    by (simp add: loop_def)
next
  fix st'
  assume "inTwoToneMode st \<and> inTempHumidMode st" "loop env st = Inr st'"
  then have "twoTone env st = Inr st'"
    by (simp add: loop_def)
  then show "lastDHT11TimeRead st' = lastDHT11TimeRead st"
    "currentTemp st' = currentTemp st" "currentHumid st' = currentHumid st"
    using twoTone_frame by blast+
next
  assume "\<not> inTwoToneMode st \<and> \<not> inTempHumidMode st \<and> \<not> inSeriesMode st"
  then show "loop env st = Inr st" "handleOverlayDraw env st = Inr st"
    by (simp_all add: loop_def handleOverlayDraw_def)
qed

theorem loop_mode_precedence_witness:
  "inTwoToneMode (example_wired\<lparr>inTempHumidMode := True\<rparr>) \<and>
   inTempHumidMode (example_wired\<lparr>inTempHumidMode := True\<rparr>) \<and>
   loop example_env (example_wired\<lparr>inTempHumidMode := True\<rparr>) =
     twoTone example_env (example_wired\<lparr>inTempHumidMode := True\<rparr>) \<and>
   \<not> inTwoToneMode modes_off \<and> \<not> inTempHumidMode modes_off \<and> \<not> inSeriesMode modes_off \<and>
   loop example_env modes_off = Inr modes_off \<and>
   handleOverlayDraw example_env modes_off = Inr modes_off"
proof -
  have a: "inTwoToneMode (example_wired\<lparr>inTempHumidMode := True\<rparr>) \<and>
     inTempHumidMode (example_wired\<lparr>inTempHumidMode := True\<rparr>)"
    by (simp add: example_wired_def constructed_def)
  have b: "\<not> inTwoToneMode modes_off \<and> \<not> inTempHumidMode modes_off \<and> \<not> inSeriesMode modes_off"
    by (simp add: modes_off_def constructed_def)
  show ?thesis
    using loop_mode_precedence [of "example_wired\<lparr>inTempHumidMode := True\<rparr>" example_env]
      loop_mode_precedence [of modes_off example_env] a b
    by simp
qed

subsection \<open>The temperature and humidity render\<close>

lemma c_div_mod_two_digits:
  assumes "0 \<le> x" "x \<le> 99"
  shows "0 \<le> c_div x 10 \<and> c_div x 10 \<le> 9 \<and> 0 \<le> c_mod x 10 \<and> c_mod x 10 \<le> 9 \<and>
    c_div x 10 * 10 + c_mod x 10 = x"
proof -
  have d: "c_div x 10 = x div 10"
    using assms by (cases "x = 0") (simp_all add: c_div_def)
  have m: "c_mod x 10 = x mod 10"
    by (simp add: c_mod_def d minus_mult_div_eq_mod)
  show ?thesis
    using assms by (simp add: d m) presburger
qed

lemma four_digits_ok:
  assumes "wired st" "inTwoToneMode st \<or> inTempHumidMode st"
    and "\<And>s. 0 \<le> f0 (st\<lparr>strip := s\<rparr>) \<and> f0 (st\<lparr>strip := s\<rparr>) \<le> 9"
    and "\<And>s. 0 \<le> f1 (st\<lparr>strip := s\<rparr>) \<and> f1 (st\<lparr>strip := s\<rparr>) \<le> 9"
    and "\<And>s. 0 \<le> f2 (st\<lparr>strip := s\<rparr>) \<and> f2 (st\<lparr>strip := s\<rparr>) \<le> 9"
    and "\<And>s. 0 \<le> f3 (st\<lparr>strip := s\<rparr>) \<and> f3 (st\<lparr>strip := s\<rparr>) \<le> 9"
  shows "\<exists>s. andThen (setDigit 0 (f0 st) st) (\<lambda>st1.
           andThen (setDigit 1 (f1 st1) st1) (\<lambda>st2.
           andThen (setDigit 2 (f2 st2) st2) (\<lambda>st3.
           setDigit 3 (f3 st3) st3))) = Inr (st\<lparr>strip := s\<rparr>)"
proof -
  have ok: "\<exists>s'. setDigit d (f (st\<lparr>strip := s\<rparr>)) (st\<lparr>strip := s\<rparr>) = Inr (st\<lparr>strip := s'\<rparr>)"
    if "0 \<le> d" "d \<le> 3" "\<And>s. 0 \<le> f (st\<lparr>strip := s\<rparr>) \<and> f (st\<lparr>strip := s\<rparr>) \<le> 9"
    for d f s
    using setDigit_segmented_ok [of "st\<lparr>strip := s\<rparr>" d "f (st\<lparr>strip := s\<rparr>)"]
      assms(1,2) that by simp
  obtain s1 where s1: "setDigit 0 (f0 st) st = Inr (st\<lparr>strip := s1\<rparr>)"
    using ok [of 0 f0 "strip st"] assms(3) by auto
  obtain s2 where s2: "setDigit 1 (f1 (st\<lparr>strip := s1\<rparr>)) (st\<lparr>strip := s1\<rparr>) = Inr (st\<lparr>strip := s2\<rparr>)"
    using ok [of 1 f1 s1] assms(4) by auto
  obtain s3 where s3: "setDigit 2 (f2 (st\<lparr>strip := s2\<rparr>)) (st\<lparr>strip := s2\<rparr>) = Inr (st\<lparr>strip := s3\<rparr>)"
    using ok [of 2 f2 s2] assms(5) by auto
  obtain s4 where s4: "setDigit 3 (f3 (st\<lparr>strip := s3\<rparr>)) (st\<lparr>strip := s3\<rparr>) = Inr (st\<lparr>strip := s4\<rparr>)"
    using ok [of 3 f3 s3] assms(6) by auto
  show ?thesis
    by (rule exI [of _ s4]) (simp add: s1 s2 s3 s4)
qed

lemma setDigit_body_segs:
  assumes "setDigit_body b x st = Inr st'"
  shows "\<forall>n. segs (strip st') n = segs (strip st) n \<or>
    segs (strip st') n = turnedOff (segs (strip st) n)"
proof (cases "inTwoToneMode st \<or> inTempHumidMode st")
  case True
  with assms obtain p where "st' = st\<lparr>strip := turnOffSeg p (b + x) (strip st)\<rparr>"
    by (auto simp add: setDigit_body_def andThen_Inr_iff)
  then show ?thesis
    by (simp add: turnOffSeg_eq)
next
  case False
  with assms show ?thesis
    by (auto simp add: setDigit_body_def turnOffSegPixels_eq split: if_splits)
qed

lemma setDigit_loop_segs:
  "setDigit_loop b v i st = Inr st' \<Longrightarrow>
   \<forall>n. segs (strip st') n = segs (strip st) n \<or> segs (strip st') n = turnedOff (segs (strip st) n)"
proof (induction b v i st arbitrary: st' rule: setDigit_loop.induct)
  case (1 b v i st)
  show ?case
  proof (cases "i < NUM_DIGITS")
    case False
    with "1.prems" show ?thesis
      by (simp add: setDigit_loop.simps [of b v i])
  next
    case True
    show ?thesis
    proof (cases "DIGITS_at v i")
      case (Inl e)
      with True "1.prems" show ?thesis
        by (simp add: setDigit_loop.simps [of b v i])
    next
      case (Inr segIndex)
      show ?thesis
      proof (cases "segIndex = -1")
        case True
        with \<open>i < NUM_DIGITS\<close> Inr "1.prems" show ?thesis
          by (simp add: setDigit_loop.simps [of b v i])
      next
        case False
        with \<open>i < NUM_DIGITS\<close> Inr "1.prems" obtain st1 where
          body: "setDigit_body b segIndex st = Inr st1"
          and rest: "setDigit_loop b v (i + 1) st1 = Inr st'"
          by (auto simp add: setDigit_loop.simps [of b v i] andThen_Inr_iff)
        have one: "\<forall>n. segs (strip st1) n = segs (strip st) n \<or>
            segs (strip st1) n = turnedOff (segs (strip st) n)"
          using body by (rule setDigit_body_segs)
        have two: "\<forall>n. segs (strip st') n = segs (strip st1) n \<or>
            segs (strip st') n = turnedOff (segs (strip st1) n)"
          using "1.IH" [OF \<open>i < NUM_DIGITS\<close> Inr False rest] .
        show ?thesis
        proof
          fix n
          from one [rule_format, of n] two [rule_format, of n]
          show "segs (strip st') n = segs (strip st) n \<or>
            segs (strip st') n = turnedOff (segs (strip st) n)"
            by (auto simp add: turnedOff_idem)
        qed
      qed
    qed
  qed
qed

lemma setDigit_segs:
  "setDigit d v st = Inr st' \<Longrightarrow>
   \<forall>n. segs (strip st') n = segs (strip st) n \<or> segs (strip st') n = turnedOff (segs (strip st) n)"
  unfolding setDigit_def by (rule setDigit_loop_segs)

lemma tempHumidDigits_segs:
  assumes "tempHumidDigits st = Inr st'"
  shows "\<forall>n. segs (strip st') n = segs (strip st) n \<or>
    segs (strip st') n = turnedOff (segs (strip st) n)"
proof
  fix n
  from assms obtain st1 st2 st3 where
    d0: "setDigit 0 (c_div (currentTemp st) 10) st = Inr st1" and
    d1: "setDigit 1 (c_mod (currentTemp st1) 10) st1 = Inr st2" and
    d2: "setDigit 2 (c_div (currentHumid st2) 10) st2 = Inr st3" and
    d3: "setDigit 3 (c_mod (currentHumid st3) 10) st3 = Inr st'"
    by (auto simp add: tempHumidDigits_def andThen_Inr_iff)
  from setDigit_segs [OF d0, rule_format, of n] setDigit_segs [OF d1, rule_format, of n]
    setDigit_segs [OF d2, rule_format, of n] setDigit_segs [OF d3, rule_format, of n]
  show "segs (strip st') n = segs (strip st) n \<or>
    segs (strip st') n = turnedOff (segs (strip st) n)"
    by (auto simp add: turnedOff_idem)
qed

lemma displayTempAndHumid_eq:
  "displayTempAndHumid env st0 =
    andThen (setTempHumidColors (readTempAndHumid env st0)) tempHumidDigits"
proof -
  have "tempHumidDigits = (\<lambda>st.
    andThen (setDigit 0 (c_div (currentTemp st) 10) st) (\<lambda>st1.
    andThen (setDigit 1 (c_mod (currentTemp st1) 10) st1) (\<lambda>st2.
    andThen (setDigit 2 (c_div (currentHumid st2) 10) st2) (\<lambda>st3.
    setDigit 3 (c_mod (currentHumid st3) 10) st3))))"
    by (rule ext) (simp add: tempHumidDigits_def)
  then show ?thesis
    by (simp add: displayTempAndHumid_def)
qed

text \<open>
  C7. In the temperature and humidity render, with the pointers set: after the sensor was
  polled, \<^verbatim>\<open>setTempHumidColors\<close> succeeds, and for every segment index \<open>i\<close> in 0..27 the
  segment (the host's segment \<open>i + 3\<close>) gets the colour, effect mode, speed, intensity and
  palette of: the first colour source when \<open>i \<ge> 14\<close> and the current temperature is above
  0, the second colour source when \<open>i \<ge> 14\<close> and it is not (so for -3 and for 0), and the
  third colour source when \<open>i < 14\<close>; the colour sources are not changed. The render,
  \<^verbatim>\<open>displayTempAndHumid\<close>, and with it \<^verbatim>\<open>loop\<close> in temperature mode, is the four calls of
  \<^verbatim>\<open>setDigit\<close> on that state; whenever they return, every segment of the host is as the
  copy left it or is that segment turned off, which keeps its mode, speed, intensity and
  palette.
\<close>

theorem tempHumid_render_copies:
  assumes "wired st"
  shows "\<exists>st'. setTempHumidColors st = Inr st' \<and>
    (\<forall>i. 0 \<le> i \<and> i < 28 \<longrightarrow>
      segs (strip st') (nat i + 3) =
        (let src = segs (strip st)
               (the (if 14 \<le> i then (if currentTemp st > 0 then firstSeg st else secondSeg st)
                     else thirdSeg st))
         in (segs (strip st) (nat i + 3))\<lparr>colors0 := colors0 src, mode := mode src,
              speed := speed src, intensity := intensity src, palette := palette src\<rparr>)) \<and>
    (\<forall>n. n < 3 \<longrightarrow> segs (strip st') n = segs (strip st) n) \<and>
    (\<forall>env st0. readTempAndHumid env st0 = st \<longrightarrow>
       displayTempAndHumid env st0 = tempHumidDigits st' \<and>
       (\<not> inTwoToneMode st0 \<and> inTempHumidMode st0 \<longrightarrow> loop env st0 = tempHumidDigits st')) \<and>
    (\<forall>st''. tempHumidDigits st' = Inr st'' \<longrightarrow>
       (\<forall>n. segs (strip st'') n = segs (strip st') n \<or>
            segs (strip st'') n = turnedOff (segs (strip st') n)))"
proof -
  let ?st' = "st\<lparr>strip := (strip st)\<lparr>segs :=
      copyFrom (tempHumid_source (currentTemp st)) 0 (segs (strip st))\<rparr>\<rparr>"
  have run: "setTempHumidColors st = Inr ?st'"
    unfolding setTempHumidColors_def using assms by (intro setTempHumidColors_loop_eq) simp_all
  have copy: "segs (strip ?st') (nat i + 3) =
        (let src = segs (strip st)
               (the (if 14 \<le> i then (if currentTemp st > 0 then firstSeg st else secondSeg st)
                     else thirdSeg st))
         in (segs (strip st) (nat i + 3))\<lparr>colors0 := colors0 src, mode := mode src,
              speed := speed src, intensity := intensity src, palette := palette src\<rparr>)"
    if "0 \<le> i \<and> i < 28" for i
    using that assms
    by (auto simp add: copyFrom_def tempHumid_source_def copied_def wired_def Let_def)
  have keep: "segs (strip ?st') n = segs (strip st) n" if "n < 3" for n
    using that by (simp add: copyFrom_def)
  have tie: "displayTempAndHumid env st0 = tempHumidDigits ?st' \<and>
       (\<not> inTwoToneMode st0 \<and> inTempHumidMode st0 \<longrightarrow> loop env st0 = tempHumidDigits ?st')"
    if "readTempAndHumid env st0 = st" for env st0
    using that by (simp add: displayTempAndHumid_eq run loop_def)
  have final: "\<forall>n. segs (strip st'') n = segs (strip ?st') n \<or>
            segs (strip st'') n = turnedOff (segs (strip ?st') n)"
    if "tempHumidDigits ?st' = Inr st''" for st''
    using that by (rule tempHumidDigits_segs)
  show ?thesis
    using run copy keep tie final by blast
qed

theorem tempHumid_render_copies_witness:
  "wired (readTempAndHumid example_env example_tempHumid) \<and>
   \<not> inTwoToneMode example_tempHumid \<and> inTempHumidMode example_tempHumid \<and>
   (0::int) \<le> 20 \<and> (20::int) < 28 \<and> (0::nat) < 3 \<and>
   currentTemp (readTempAndHumid example_env example_tempHumid) = 21 \<and>
   loop example_env example_tempHumid =
     tempHumidDigits (projr (setTempHumidColors (readTempAndHumid example_env example_tempHumid))) \<and>
   \<not> isl (loop example_env example_tempHumid) \<and>
   mode (segs (strip (projr (loop example_env example_tempHumid))) 23) = 1 \<and>
   mode (segs (strip (projr (loop example_env example_tempHumid))) 8) = 5 \<and>
   mode (segs (strip example_tempHumid) 23) = 0 \<and>
   \<not> isl (loop (example_env\<lparr>readTemperature := 0\<rparr>) example_tempHumid) \<and>
   mode (segs (strip (projr (loop (example_env\<lparr>readTemperature := 0\<rparr>) example_tempHumid))) 23) = 2 \<and>
   currentTemp (readTempAndHumid (example_env\<lparr>readTemperature := -3\<rparr>) example_tempHumid) = -3 \<and>
   mode (segs (strip (projr (setTempHumidColors
     (readTempAndHumid (example_env\<lparr>readTemperature := -3\<rparr>) example_tempHumid)))) 23) = 2 \<and>
   colors0 (segs (strip (projr (setTempHumidColors
     (readTempAndHumid (example_env\<lparr>readTemperature := -3\<rparr>) example_tempHumid)))) 23) = 0x0000FF \<and>
   mode (segs (strip (projr (setTempHumidColors
     (readTempAndHumid (example_env\<lparr>readTemperature := -3\<rparr>) example_tempHumid)))) 8) = 5"
proof -
  have flags: "\<not> inTwoToneMode example_tempHumid \<and> inTempHumidMode example_tempHumid"
    by (simp add: example_tempHumid_def example_wired_def)
  have before: "mode (segs (strip example_tempHumid) 23) = 0"
    by (simp add: example_tempHumid_def example_wired_def example_strip_def blank_segment_def)
  have helper: "wired (readTempAndHumid (example_env\<lparr>readTemperature := t\<rparr>) example_tempHumid) \<and>
    currentTemp (readTempAndHumid (example_env\<lparr>readTemperature := t\<rparr>) example_tempHumid) = t \<and>
    tempHumidDigits (projr (setTempHumidColors
        (readTempAndHumid (example_env\<lparr>readTemperature := t\<rparr>) example_tempHumid))) =
      loop (example_env\<lparr>readTemperature := t\<rparr>) example_tempHumid \<and>
    mode (segs (strip (projr (setTempHumidColors
      (readTempAndHumid (example_env\<lparr>readTemperature := t\<rparr>) example_tempHumid)))) 23)
      = (if t > 0 then 1 else 2) \<and>
    colors0 (segs (strip (projr (setTempHumidColors
      (readTempAndHumid (example_env\<lparr>readTemperature := t\<rparr>) example_tempHumid)))) 23)
      = (if t > 0 then 0xFF0000 else 0x0000FF) \<and>
    mode (segs (strip (projr (setTempHumidColors
      (readTempAndHumid (example_env\<lparr>readTemperature := t\<rparr>) example_tempHumid)))) 8) = 5 \<and>
    (0 \<le> t \<and> t \<le> 99 \<longrightarrow>
      \<not> isl (loop (example_env\<lparr>readTemperature := t\<rparr>) example_tempHumid) \<and>
      mode (segs (strip (projr (loop (example_env\<lparr>readTemperature := t\<rparr>) example_tempHumid))) 23)
        = (if t > 0 then 1 else 2) \<and>
      mode (segs (strip (projr (loop (example_env\<lparr>readTemperature := t\<rparr>) example_tempHumid))) 8)
        = 5)" for t
  proof -
    let ?env = "example_env\<lparr>readTemperature := t\<rparr>"
    let ?st = "readTempAndHumid ?env example_tempHumid"
    have st: "?st = example_tempHumid\<lparr>lastDHT11TimeRead := 20000, currentTemp := t,
        currentHumid := 40\<rparr>"
      by (simp add: readTempAndHumid_def readDue_unat example_env_def example_tempHumid_def
          example_wired_def constructed_def)
    have w: "wired ?st"
      using example_tempHumid_wired by (simp add: wired_readTempAndHumid)
    have th: "inTempHumidMode ?st"
      using flags by (simp add: st)
    from tempHumid_render_copies [OF w] obtain st' where
      run: "setTempHumidColors ?st = Inr st'" and
      copy: "\<forall>i. 0 \<le> i \<and> i < 28 \<longrightarrow>
        segs (strip st') (nat i + 3) =
          (let src = segs (strip ?st)
             (the (if 14 \<le> i then (if currentTemp ?st > 0 then firstSeg ?st else secondSeg ?st)
                   else thirdSeg ?st))
           in (segs (strip ?st) (nat i + 3))\<lparr>colors0 := colors0 src, mode := mode src,
                speed := speed src, intensity := intensity src, palette := palette src\<rparr>)" and
      tie: "\<forall>env st0. readTempAndHumid env st0 = ?st \<longrightarrow>
         displayTempAndHumid env st0 = tempHumidDigits st' \<and>
         (\<not> inTwoToneMode st0 \<and> inTempHumidMode st0 \<longrightarrow> loop env st0 = tempHumidDigits st')" and
      final: "\<forall>st''. tempHumidDigits st' = Inr st'' \<longrightarrow>
         (\<forall>n. segs (strip st'') n = segs (strip st') n \<or>
              segs (strip st'') n = turnedOff (segs (strip st') n))"
      by blast
    have lp: "loop ?env example_tempHumid = tempHumidDigits st'"
      using tie [rule_format, of ?env example_tempHumid] flags by simp
    have m23: "mode (segs (strip st') 23) = (if t > 0 then 1 else 2) \<and>
        colors0 (segs (strip st') 23) = (if t > 0 then 0xFF0000 else 0x0000FF)"
      using copy [rule_format, of 20]
      by (simp add: st) (simp add: example_tempHumid_def example_wired_def example_strip_def)
    have m8: "mode (segs (strip st') 8) = 5"
      using copy [rule_format, of 5]
      by (simp add: st) (simp add: example_tempHumid_def example_wired_def example_strip_def)
    have frame: "\<not> isl (tempHumidDigits st') \<and>
        mode (segs (strip (projr (tempHumidDigits st'))) 23) = (if t > 0 then 1 else 2) \<and>
        mode (segs (strip (projr (tempHumidDigits st'))) 8) = 5"
      if t: "0 \<le> t \<and> t \<le> 99"
    proof -
      have "\<exists>x. st' = ?st\<lparr>strip := x\<rparr>"
        using setTempHumidColors_loop_eq [OF w, of 0] run
        by (auto simp add: setTempHumidColors_def)
      then obtain x where shape: "st' = ?st\<lparr>strip := x\<rparr>" ..
      have w': "wired st'" "inTwoToneMode st' \<or> inTempHumidMode st'"
        using w th by (simp_all add: shape)
      have temp: "0 \<le> c_div t 10 \<and> c_div t 10 \<le> 9 \<and> 0 \<le> c_mod t 10 \<and> c_mod t 10 \<le> 9"
        using c_div_mod_two_digits [of t] t by simp
      have humid: "0 \<le> c_div 40 10 \<and> c_div 40 10 \<le> 9 \<and> 0 \<le> c_mod 40 10 \<and> c_mod 40 10 \<le> (9::int)"
        using c_div_mod_two_digits [of 40] by simp
      have "\<exists>s. andThen (setDigit 0 (c_div (currentTemp st') 10) st') (\<lambda>st1.
           andThen (setDigit 1 (c_mod (currentTemp st1) 10) st1) (\<lambda>st2.
           andThen (setDigit 2 (c_div (currentHumid st2) 10) st2) (\<lambda>st3.
           setDigit 3 (c_mod (currentHumid st3) 10) st3))) = Inr (st'\<lparr>strip := s\<rparr>)"
        using w' temp humid
        by (intro four_digits_ok [of st' "\<lambda>x. c_div (currentTemp x) 10"
              "\<lambda>x. c_mod (currentTemp x) 10" "\<lambda>x. c_div (currentHumid x) 10"
              "\<lambda>x. c_mod (currentHumid x) 10"])
          (simp_all add: shape st)
      then obtain st'' where ok: "tempHumidDigits st' = Inr st''"
        by (auto simp add: tempHumidDigits_def)
      from final [rule_format, OF ok, of 23] final [rule_format, OF ok, of 8] m23 m8
      show ?thesis
        by (auto simp add: ok turnedOff_def)
    qed
    have pr: "projr (setTempHumidColors ?st) = st'"
      by (simp add: run)
    have ct: "currentTemp ?st = t"
      by (simp add: st)
    show ?thesis
      unfolding pr ct lp using w m23 m8 frame by simp
  qed
  have e21: "example_env\<lparr>readTemperature := 21\<rparr> = example_env"
    by (simp add: example_env_def)
  from helper [of 21, unfolded e21] helper [of 0] helper [of "-3"] flags before
  show ?thesis
    by simp
qed

section \<open>Further properties\<close>

subsection \<open>The segmented wiring\<close>

lemma setSegments_first_eq:
  "setSegments_first 0 s = setSegment 2 2 3 (setSegment 1 1 2 (setSegment 0 0 1 s))"
  by (simp add: setSegments_first.simps [of 0] setSegments_first.simps [of 1]
      setSegments_first.simps [of 2] setSegments_first.simps [of 3] NUM_FIRST_LEDS_def)

lemma setSegments_loop_eq:
  "0 \<le> i \<Longrightarrow>
   setSegments_loop a n i b e s =
     s\<lparr>segs := (\<lambda>k. if i + 3 \<le> int k \<and> int k < n + 3
        then (segs s k)\<lparr>start := b + a * (int k - 3 - i), stop := e + a * (int k - 3 - i)\<rparr>
        else segs s k)\<rparr>"
proof (induction a n i b e s rule: setSegments_loop.induct)
  case (1 a n i b e s)
  show ?case
  proof (cases "i < n")
    case False
    then have "(\<lambda>k. if i + 3 \<le> int k \<and> int k < n + 3
        then (segs s k)\<lparr>start := b + a * (int k - 3 - i), stop := e + a * (int k - 3 - i)\<rparr>
        else segs s k) = segs s"
      by (auto simp add: fun_eq_iff)
    with False show ?thesis
      by (simp add: setSegments_loop.simps [of a n i])
  next
    case True
    define s1 where "s1 = setSegment (i + NUM_FIRST_LEDS) b e s"
    have s1: "segs s1 = (segs s)(nat (i + 3) := (segs s (nat (i + 3)))\<lparr>start := b, stop := e\<rparr>)"
      "s1\<lparr>segs := f\<rparr> = s\<lparr>segs := f\<rparr>" for f
      by (simp_all add: s1_def setSegment_def upd_seg_def NUM_FIRST_LEDS_def)
    have "setSegments_loop a n (i + 1) (b + a) (e + a) s1 =
      s1\<lparr>segs := (\<lambda>k. if i + 1 + 3 \<le> int k \<and> int k < n + 3
        then (segs s1 k)\<lparr>start := b + a + a * (int k - 3 - (i + 1)),
               stop := e + a + a * (int k - 3 - (i + 1))\<rparr>
        else segs s1 k)\<rparr>"
      unfolding s1_def using True "1.prems" by (intro "1.IH") simp_all
    moreover have "(\<lambda>k. if i + 1 + 3 \<le> int k \<and> int k < n + 3
        then (segs s1 k)\<lparr>start := b + a + a * (int k - 3 - (i + 1)),
               stop := e + a + a * (int k - 3 - (i + 1))\<rparr>
        else segs s1 k)
      = (\<lambda>k. if i + 3 \<le> int k \<and> int k < n + 3
        then (segs s k)\<lparr>start := b + a * (int k - 3 - i), stop := e + a * (int k - 3 - i)\<rparr>
        else segs s k)"
    proof
      fix k :: nat
      show "(if i + 1 + 3 \<le> int k \<and> int k < n + 3
        then (segs s1 k)\<lparr>start := b + a + a * (int k - 3 - (i + 1)),
               stop := e + a + a * (int k - 3 - (i + 1))\<rparr>
        else segs s1 k)
      = (if i + 3 \<le> int k \<and> int k < n + 3
        then (segs s k)\<lparr>start := b + a * (int k - 3 - i), stop := e + a * (int k - 3 - i)\<rparr>
        else segs s k)"
        using True "1.prems"
        by (cases "k = nat (i + 3)") (auto simp add: s1(1) algebra_simps)
    qed
    moreover have "setSegments_loop a n i b e s = setSegments_loop a n (i + 1) (b + a) (e + a) s1"
      using True by (simp add: setSegments_loop.simps [of a n i] s1_def)
    ultimately show ?thesis
      by (simp add: s1(2))
  qed
qed

lemma setSegments_ranges:
  "setSegments ADDR_LEDS_PER_SEG NUM_OF_SEGMENTS s = s\<lparr>segs := segmented_ranges (segs s)\<rparr>"
proof -
  let ?s0 = "setSegments_first 0 s"
  have three: "k < 3 \<longleftrightarrow> k = 0 \<or> k = 1 \<or> k = 2" for k :: nat
    by auto
  have first: "segs ?s0 = (\<lambda>k. if k < 3 then (segs s k)\<lparr>start := int k, stop := int k + 1\<rparr>
      else segs s k)"
    by (auto simp add: setSegments_first_eq setSegment_def upd_seg_def fun_eq_iff three)
  have upd: "?s0\<lparr>segs := f\<rparr> = s\<lparr>segs := f\<rparr>" for f
    by (simp add: setSegments_first_eq setSegment_def upd_seg_def)
  let ?F = "\<lambda>k. if 0 + 3 \<le> int k \<and> int k < 28 + 3
        then (segs ?s0 k)\<lparr>start := 3 + 3 * (int k - 3 - 0), stop := 6 + 3 * (int k - 3 - 0)\<rparr>
        else segs ?s0 k"
  have "setSegments ADDR_LEDS_PER_SEG NUM_OF_SEGMENTS s = setSegments_loop 3 28 0 3 6 ?s0"
    by (simp add: setSegments_def ADDR_LEDS_PER_SEG_def NUM_OF_SEGMENTS_def NUM_FIRST_LEDS_def)
  also have "\<dots> = ?s0\<lparr>segs := ?F\<rparr>"
    by (rule setSegments_loop_eq) simp
  also have "\<dots> = s\<lparr>segs := ?F\<rparr>"
    by (rule upd)
  also have "?F = segmented_ranges (segs s)"
    by (auto simp add: fun_eq_iff first segmented_ranges_def)
  finally show ?thesis .
qed

lemma segmented_ranges_idem: "segmented_ranges (segmented_ranges f) = segmented_ranges f"
  by (auto simp add: fun_eq_iff segmented_ranges_def)

text \<open>
  X1. \<^verbatim>\<open>setSegments(3, 28)\<close> defines the host's segments 0, 1 and 2 as the one-LED ranges
  of the colour sources and the host's segment \<open>k\<close>, for \<open>k\<close> from 3 to 30, as the three LEDs
  from \<open>3 + 3 * (k - 3)\<close>: contiguous, in the order of the segments. It changes no other
  range, no property of a segment and no pixel.
\<close>

theorem setSegments_layout:
  "setSegments ADDR_LEDS_PER_SEG NUM_OF_SEGMENTS s =
    s\<lparr>segs := (\<lambda>k.
      if k < 3 then (segs s k)\<lparr>start := int k, stop := int k + 1\<rparr>
      else if k < 31 then (segs s k)\<lparr>start := 3 + 3 * (int k - 3), stop := 6 + 3 * (int k - 3)\<rparr>
      else segs s k)\<rparr>"
  unfolding setSegments_ranges segmented_ranges_def ..

text \<open>
  X2. When two-tone or temperature mode is set, \<^verbatim>\<open>setup\<close> succeeds and leaves the pointers
  set and the host wired in segments, with the first reading of the sensor cached; the
  time stamp of the sensor is not set by that first reading.
\<close>

theorem setup_wires:
  "inTwoToneMode st \<or> inTempHumidMode st \<longrightarrow>
    (\<exists>st'. setup_usermod env st = Inr st' \<and> wired st' \<and>
       strip st' = setSegments ADDR_LEDS_PER_SEG NUM_OF_SEGMENTS (strip st) \<and>
       currentTemp st' = readTemperature env \<and> currentHumid st' = readHumidity env \<and>
       lastDHT11TimeRead st' = lastDHT11TimeRead st)"
proof
  assume "inTwoToneMode st \<or> inTempHumidMode st"
  then show "\<exists>st'. setup_usermod env st = Inr st' \<and> wired st' \<and>
       strip st' = setSegments ADDR_LEDS_PER_SEG NUM_OF_SEGMENTS (strip st) \<and>
       currentTemp st' = readTemperature env \<and> currentHumid st' = readHumidity env \<and>
       lastDHT11TimeRead st' = lastDHT11TimeRead st"
    using wireSegmented_eq [of st]
    by (simp add: setup_usermod_def wireSegmented_def initDHT11Sensor_def wired_def)
qed

theorem setup_wires_witness:
  "inTwoToneMode constructed \<and>
   wired (projr (setup_usermod example_env constructed)) \<and>
   currentTemp (projr (setup_usermod example_env constructed)) = 21 \<and>
   lastDHT11TimeRead (projr (setup_usermod example_env constructed)) = 0"
proof -
  have a: "inTwoToneMode constructed"
    by (simp add: constructed_def)
  with setup_wires [of constructed example_env] obtain st' where
    "setup_usermod example_env constructed = Inr st'" "wired st'"
    "currentTemp st' = readTemperature example_env"
    "lastDHT11TimeRead st' = lastDHT11TimeRead constructed"
    by blast
  then show ?thesis
    using a by (simp add: example_env_def) (simp add: constructed_def)
qed

lemma resetSegments_setSegment:
  "resetSegments (setSegment n a b (resetSegments s)) = resetSegments s"
proof -
  have "(\<lambda>k. (((\<lambda>k. (segs s k)\<lparr>start := 0, stop := 0\<rparr>)
        (nat n := (segs s (nat n))\<lparr>start := 0, stop := 0, start := a, stop := b\<rparr>)) k)
          \<lparr>start := 0, stop := 0\<rparr>)
     = (\<lambda>k. (segs s k)\<lparr>start := 0, stop := 0\<rparr>)"
    by (auto simp add: fun_eq_iff)
  then show ?thesis
    by (simp add: resetSegments_def setSegment_def upd_seg_def)
qed

text \<open>
  X3. Wiring twice is wiring once: the segmented wiring and the flat wiring, run again
  on their own result, leave it as it is.
\<close>

theorem rewiring_idempotent:
  "setSegments ADDR_LEDS_PER_SEG NUM_OF_SEGMENTS
      (setSegments ADDR_LEDS_PER_SEG NUM_OF_SEGMENTS s) =
     setSegments ADDR_LEDS_PER_SEG NUM_OF_SEGMENTS s \<and>
   wireFlat (wireFlat st) = wireFlat st"
proof
  show "setSegments ADDR_LEDS_PER_SEG NUM_OF_SEGMENTS
      (setSegments ADDR_LEDS_PER_SEG NUM_OF_SEGMENTS s) =
     setSegments ADDR_LEDS_PER_SEG NUM_OF_SEGMENTS s"
    by (simp add: setSegments_ranges segmented_ranges_idem)
  show "wireFlat (wireFlat st) = wireFlat st"
    by (simp add: wireFlat_def resetSegments_setSegment)
qed

subsection \<open>Two decimal digits\<close>

text \<open>
  X4. For a value from 0 to 99 the two digits \<^verbatim>\<open>value / 10\<close> and \<^verbatim>\<open>value % 10\<close> lie in
  0..9, give the value back as tens * 10 + units, and index the glyph table within its
  bounds.
\<close>

theorem two_digit_decomposition:
  "0 \<le> x \<and> x \<le> 99 \<longrightarrow>
     c_div x 10 * 10 + c_mod x 10 = x \<and>
     0 \<le> c_div x 10 \<and> c_div x 10 \<le> 9 \<and> 0 \<le> c_mod x 10 \<and> c_mod x 10 \<le> 9 \<and>
     (\<exists>a b. DIGITS_at (c_div x 10) 0 = Inr a \<and> DIGITS_at (c_mod x 10) 0 = Inr b)"
proof
  assume "0 \<le> x \<and> x \<le> 99"
  then have "0 \<le> c_div x 10 \<and> c_div x 10 \<le> 9 \<and> 0 \<le> c_mod x 10 \<and> c_mod x 10 \<le> 9 \<and>
    c_div x 10 * 10 + c_mod x 10 = x"
    by (intro c_div_mod_two_digits) simp_all
  then show "c_div x 10 * 10 + c_mod x 10 = x \<and>
     0 \<le> c_div x 10 \<and> c_div x 10 \<le> 9 \<and> 0 \<le> c_mod x 10 \<and> c_mod x 10 \<le> 9 \<and>
     (\<exists>a b. DIGITS_at (c_div x 10) 0 = Inr a \<and> DIGITS_at (c_mod x 10) 0 = Inr b)"
    by (simp add: DIGITS_at_def NUM_DIGITS_def NUM_OF_SEGMENTS_def)
qed

theorem two_digit_decomposition_witness:
  "(0::int) \<le> 59 \<and> (59::int) \<le> 99 \<and> c_div 59 10 = 5 \<and> c_mod 59 10 = 9 \<and>
   c_div 59 10 * 10 + c_mod 59 10 = 59"
  using two_digit_decomposition [of 59] by (simp add: c_div_def c_mod_def)

lemma displayTime_clock_ok:
  assumes "wired st" "inTwoToneMode st \<or> inTempHumidMode st" "\<not> inManualMode st"
    "valid_clock env"
  shows "\<exists>s. displayTime env st = Inr ((updateTime env st)\<lparr>strip := s\<rparr>)"
proof -
  let ?st = "updateTime env st"
  have w: "wired ?st" "inTwoToneMode ?st \<or> inTempHumidMode ?st"
    using assms(1,2) by (simp_all add: updateTime_def wired_def)
  have h: "0 \<le> c_div (hour env) 10 \<and> c_div (hour env) 10 \<le> 9 \<and>
      0 \<le> c_mod (hour env) 10 \<and> c_mod (hour env) 10 \<le> 9"
    using c_div_mod_two_digits [of "hour env"] assms(4) by (simp add: valid_clock_def)
  have m: "0 \<le> c_div (minute env) 10 \<and> c_div (minute env) 10 \<le> 9 \<and>
      0 \<le> c_mod (minute env) 10 \<and> c_mod (minute env) 10 \<le> 9"
    using c_div_mod_two_digits [of "minute env"] assms(4) by (simp add: valid_clock_def)
  have s: "0 \<le> c_div (second env) 10 \<and> c_div (second env) 10 \<le> 9 \<and>
      0 \<le> c_mod (second env) 10 \<and> c_mod (second env) 10 \<le> 9"
    using c_div_mod_two_digits [of "second env"] assms(4) by (simp add: valid_clock_def)
  show ?thesis
  proof (cases "inSecsMinsMode st")
    case True
    have "\<exists>s. andThen (setDigit 0 (c_div (currentMin ?st) 10) ?st) (\<lambda>st1.
           andThen (setDigit 1 (c_mod (currentMin st1) 10) st1) (\<lambda>st2.
           andThen (setDigit 2 (c_div (currentSec st2) 10) st2) (\<lambda>st3.
           setDigit 3 (c_mod (currentSec st3) 10) st3))) = Inr (?st\<lparr>strip := s\<rparr>)"
      using w m s
      by (intro four_digits_ok [of ?st "\<lambda>x. c_div (currentMin x) 10"
            "\<lambda>x. c_mod (currentMin x) 10" "\<lambda>x. c_div (currentSec x) 10"
            "\<lambda>x. c_mod (currentSec x) 10"])
        (simp_all add: updateTime_def)
    with True assms(3) show ?thesis
      by (simp add: displayTime_def Let_def updateTime_def)
  next
    case False
    have "\<exists>s. andThen (setDigit 0 (c_div (currentHour ?st) 10) ?st) (\<lambda>st1.
           andThen (setDigit 1 (c_mod (currentHour st1) 10) st1) (\<lambda>st2.
           andThen (setDigit 2 (c_div (currentMin st2) 10) st2) (\<lambda>st3.
           setDigit 3 (c_mod (currentMin st3) 10) st3))) = Inr (?st\<lparr>strip := s\<rparr>)"
      using w h m
      by (intro four_digits_ok [of ?st "\<lambda>x. c_div (currentHour x) 10"
            "\<lambda>x. c_mod (currentHour x) 10" "\<lambda>x. c_div (currentMin x) 10"
            "\<lambda>x. c_mod (currentMin x) 10"])
        (simp_all add: updateTime_def)
    with False assms(3) show ?thesis
      by (simp add: displayTime_def Let_def updateTime_def)
  qed
qed

text \<open>
  X5. With the pointers set, in two-tone mode and not in manual mode, a frame that shows
  a time of day (hour 0..23, minute and second 0..59) succeeds: every glyph-table access
  of the clock path is in bounds. The frame changes the host's buffer and the three time
  fields only.
\<close>

theorem clock_render_in_bounds:
  assumes "wired st" "inTwoToneMode st" "\<not> inManualMode st" "valid_clock env"
  shows "\<exists>s. loop env st = Inr ((updateTime env st)\<lparr>strip := s\<rparr>)"
proof -
  obtain s1 where c: "twoTone_loop 0 st = Inr (st\<lparr>strip := s1\<rparr>)"
    using twoTone_loop_eq [OF assms(1), of 0] by simp
  obtain s where "displayTime env (st\<lparr>strip := s1\<rparr>) =
      Inr ((updateTime env (st\<lparr>strip := s1\<rparr>))\<lparr>strip := s\<rparr>)"
    using displayTime_clock_ok [of "st\<lparr>strip := s1\<rparr>" env] assms by auto
  then have "loop env st = Inr ((updateTime env st)\<lparr>strip := s\<rparr>)"
    using assms(2) by (simp add: loop_def twoTone_def c updateTime_def)
  then show ?thesis ..
qed

theorem clock_render_in_bounds_witness:
  "wired example_wired \<and> inTwoToneMode example_wired \<and> \<not> inManualMode example_wired \<and>
   valid_clock example_env \<and>
   isl (loop example_env example_wired) = False \<and>
   currentHour (projr (loop example_env example_wired)) = 12 \<and>
   currentMin (projr (loop example_env example_wired)) = 34"
proof -
  have a: "wired example_wired" "inTwoToneMode example_wired" "\<not> inManualMode example_wired"
    by (simp_all add: example_wired_wired) (simp_all add: example_wired_def constructed_def)
  have b: "valid_clock example_env"
    by (simp add: valid_clock_def example_env_def)
  from clock_render_in_bounds [OF a b] obtain s where
    "loop example_env example_wired = Inr ((updateTime example_env example_wired)\<lparr>strip := s\<rparr>)"
    by blast
  then show ?thesis
    using a b by (simp add: updateTime_def example_env_def)
qed

subsection \<open>Sensor, manual mode and configuration\<close>

text \<open>
  X6. The first reading, in \<^verbatim>\<open>initDHT11Sensor\<close>, caches the two values but does not set
  \<^verbatim>\<open>lastDHT11TimeRead\<close>: whether the next call of \<^verbatim>\<open>readTempAndHumid\<close> reads the sensor
  does not depend on when that first reading was taken.
\<close>

theorem initDHT11Sensor_not_stamped:
  "lastDHT11TimeRead (initDHT11Sensor env0 st) = lastDHT11TimeRead st \<and>
   readDue env (initDHT11Sensor env0 st) = readDue env st \<and>
   currentTemp (initDHT11Sensor env0 st) = readTemperature env0 \<and>
   currentHumid (initDHT11Sensor env0 st) = readHumidity env0"
  by (simp add: initDHT11Sensor_def readDue_def)

text \<open>
  X7. In manual mode the digits shown do not depend on the clock: \<^verbatim>\<open>displayTime\<close> gives
  the same result for any two times.
\<close>

theorem manual_ignores_clock:
  "inManualMode st \<longrightarrow> displayTime env st = displayTime env' st"
  by (simp add: displayTime_def)

theorem manual_ignores_clock_witness:
  "inManualMode example_manual \<and>
   displayTime example_env example_manual =
     displayTime (example_env\<lparr>hour := 7, minute := 8, second := 9\<rparr>) example_manual"
  using manual_ignores_clock [of example_manual example_env
      "example_env\<lparr>hour := 7, minute := 8, second := 9\<rparr>"]
  by (simp add: example_manual_def)

text \<open>
  X8. Reading back the object \<^verbatim>\<open>addToConfig\<close> writes restores the five mode flags and
  the four manual digits, and reports the configuration complete; on the state that was
  saved it changes nothing. An absent section changes nothing and reports it incomplete.
\<close>

theorem config_round_trip:
  "readFields (Some (addToConfig st)) st' =
    (True, st'\<lparr>inTwoToneMode := inTwoToneMode st, inSeriesMode := inSeriesMode st,
       inSecsMinsMode := inSecsMinsMode st, inManualMode := inManualMode st,
       digit0Value := digit0Value st, digit1Value := digit1Value st,
       digit2Value := digit2Value st, digit3Value := digit3Value st,
       inTempHumidMode := inTempHumidMode st\<rparr>) \<and>
   fst (readFields (Some (addToConfig st)) st) = True \<and>
   snd (readFields (Some (addToConfig st)) st) = st \<and>
   fst (readFields None st') = False \<and> snd (readFields None st') = st'"
  by (simp add: readFields_def addToConfig_def element_def getJsonValue_def)

end
